theory Spec2Isabelle
  imports Complex_Main
begin

section \<open>Arrays\<close>

text \<open>
  The repertoires handled by \<^verbatim>\<open>pyphi/subsystem.py\<close> are NumPy arrays with one axis per
  network node. An array is modelled by its shape together with the value stored at every
  multi-index; floating point numbers are idealised as real numbers. Only the entries at
  the multi-indices of \<open>indices (shape a)\<close> are part of the array.
\<close>

datatype error = ValueError | KeyError | TypeError | AttributeError

record ndarray =
  shape :: "nat list"
  entry :: "nat list \<Rightarrow> real"

fun indices :: "nat list \<Rightarrow> nat list list" where
  "indices [] = [[]]"
| "indices (d # ds) = concat (map (\<lambda>i. map ((#) i) (indices ds)) [0..<d])"

definition array_sum :: "ndarray \<Rightarrow> real" where
  "array_sum a = sum_list (map (entry a) (indices (shape a)))"

definition all_zero :: "ndarray \<Rightarrow> bool" where
  "all_zero a = list_all (\<lambda>i. entry a i = 0) (indices (shape a))"

definition array_equal :: "ndarray \<Rightarrow> ndarray \<Rightarrow> bool" where
  "array_equal a b =
     (shape a = shape b \<and> list_all (\<lambda>i. entry a i = entry b i) (indices (shape a)))"

definition ones :: "nat list \<Rightarrow> ndarray" where
  "ones s = \<lparr>shape = s, entry = (\<lambda>_. 1)\<rparr>"

text \<open>\<^verbatim>\<open>np.array([1.0])\<close>, the multiplicative identity returned for an empty purview.\<close>

definition scalar_one :: ndarray where
  "scalar_one = \<lparr>shape = [1], entry = (\<lambda>_. 1)\<rparr>"

definition divide_scalar :: "ndarray \<Rightarrow> real \<Rightarrow> ndarray" where
  "divide_scalar a c = \<lparr>shape = shape a, entry = (\<lambda>i. entry a i / c)\<rparr>"

subsection \<open>Broadcasting multiplication\<close>

text \<open>
  NumPy aligns the two shapes at their last axis, pads the shorter one with leading axes
  of length 1 and stretches every axis of length 1; two axes whose lengths differ and are
  both other than 1 make the operation raise \<^verbatim>\<open>ValueError\<close>.
\<close>

definition pad_shape :: "nat \<Rightarrow> nat list \<Rightarrow> nat list" where
  "pad_shape n s = replicate (n - length s) 1 @ s"

definition broadcast_dim :: "nat \<Rightarrow> nat \<Rightarrow> nat option" where
  "broadcast_dim d e =
     (if d = e then Some d else if d = 1 then Some e else if e = 1 then Some d else None)"

fun broadcast_dims :: "nat list \<Rightarrow> nat list \<Rightarrow> nat list option" where
  "broadcast_dims [] [] = Some []"
| "broadcast_dims (d # ds) (e # es) =
     (case broadcast_dim d e of
        None \<Rightarrow> None
      | Some x \<Rightarrow> (case broadcast_dims ds es of None \<Rightarrow> None | Some xs \<Rightarrow> Some (x # xs)))"
| "broadcast_dims _ _ = None"

definition broadcast_shapes :: "nat list \<Rightarrow> nat list \<Rightarrow> nat list option" where
  "broadcast_shapes s t =
     (let n = max (length s) (length t) in broadcast_dims (pad_shape n s) (pad_shape n t))"

text \<open>The index of the operand of shape \<open>s\<close> that is read for the result index \<open>i\<close>.\<close>

definition project_index :: "nat list \<Rightarrow> nat list \<Rightarrow> nat list" where
  "project_index s i =
     map2 (\<lambda>d k. if d = 1 then 0 else k) s (drop (length i - length s) i)"

definition multiply :: "ndarray \<Rightarrow> ndarray \<Rightarrow> error + ndarray" where
  "multiply a b =
     (case broadcast_shapes (shape a) (shape b) of
        None \<Rightarrow> Inl ValueError
      | Some s \<Rightarrow>
          Inr \<lparr>shape = s,
               entry = (\<lambda>i. entry a (project_index (shape a) i)
                             * entry b (project_index (shape b) i))\<rparr>)"

text \<open>
  \<^verbatim>\<open>joint *= x\<close> multiplies in place: the broadcast result has to have the shape of
  \<^verbatim>\<open>joint\<close> itself.
\<close>

definition multiply_inplace :: "ndarray \<Rightarrow> ndarray \<Rightarrow> error + ndarray" where
  "multiply_inplace joint x =
     (case multiply joint x of
        Inl e \<Rightarrow> Inl e
      | Inr r \<Rightarrow> if shape r = shape joint then Inr r else Inl ValueError)"

text \<open>\<^verbatim>\<open>functools.reduce(np.multiply, xs)\<close>; an empty list raises \<^verbatim>\<open>TypeError\<close>.\<close>

fun multiply_from :: "ndarray \<Rightarrow> ndarray list \<Rightarrow> error + ndarray" where
  "multiply_from acc [] = Inr acc"
| "multiply_from acc (x # xs) =
     (case multiply acc x of Inl e \<Rightarrow> Inl e | Inr r \<Rightarrow> multiply_from r xs)"

fun reduce_multiply :: "ndarray list \<Rightarrow> error + ndarray" where
  "reduce_multiply [] = Inl TypeError"
| "reduce_multiply (x # xs) = multiply_from x xs"

subsection \<open>Slicing, marginalization, conditioning, reshaping\<close>

text \<open>\<^verbatim>\<open>a[..., k]\<close>: pin the last axis to \<open>k\<close> and drop it.\<close>

definition index_last :: "ndarray \<Rightarrow> nat \<Rightarrow> error + ndarray" where
  "index_last a k =
     (if shape a \<noteq> [] \<and> k < last (shape a)
      then Inr \<lparr>shape = butlast (shape a), entry = (\<lambda>i. entry a (i @ [k]))\<rparr>
      else Inl KeyError)"

text \<open>
  Marginalizing one node out (\<^verbatim>\<open>marginalize_out\<close> of \<^verbatim>\<open>cyphi/utils.py\<close>): the sum
  along the node's axis, kept as an axis of length 1, divided by the axis's length.
\<close>

definition marginalize_axis :: "nat \<Rightarrow> ndarray \<Rightarrow> ndarray" where
  "marginalize_axis k a =
     \<lparr>shape = (shape a)[k := 1],
      entry = (\<lambda>i. sum_list (map (\<lambda>j. entry a (i[k := j])) [0..<shape a ! k])
                     / real (shape a ! k))\<rparr>"

text \<open>
  Modelled from the spec: \<^verbatim>\<open>pyphi.tpm.marginalize_out\<close> is not among the sources. Section
  4.1: marginalization over a node is the axis sum followed by normalization by that
  axis's length; a set of nodes is marginalized out node by node. An axis the array does
  not have raises.
\<close>

definition marginalize_out :: "nat list \<Rightarrow> ndarray \<Rightarrow> error + ndarray" where
  "marginalize_out ks a =
     (if list_all (\<lambda>k. k < length (shape a)) ks
      then Inr (fold marginalize_axis (remdups ks) a)
      else Inl ValueError)"

text \<open>
  Modelled from the spec: \<^verbatim>\<open>pyphi.tpm.condition_tpm\<close> is not among the sources. Section
  4.1: conditioning on a set of nodes in a given state selects along those axes; the
  selected axis stays as an axis of length 1.
\<close>

definition condition_axis :: "nat list \<Rightarrow> nat \<Rightarrow> ndarray \<Rightarrow> ndarray" where
  "condition_axis st k a =
     \<lparr>shape = (shape a)[k := 1],
      entry = (\<lambda>i. entry a (i[k := (if shape a ! k = 1 then 0 else st ! k)]))\<rparr>"

definition condition_tpm :: "ndarray \<Rightarrow> nat list \<Rightarrow> nat list \<Rightarrow> error + ndarray" where
  "condition_tpm a ks st =
     (if list_all (\<lambda>k. k < length (shape a) \<and> k < length st
                        \<and> (shape a ! k = 1 \<or> st ! k < shape a ! k)) ks
      then Inr (fold (condition_axis st) (remdups ks) a)
      else Inl KeyError)"

text \<open>Row-major position of a multi-index, and the multi-index of a position.\<close>

fun ravel :: "nat list \<Rightarrow> nat list \<Rightarrow> nat" where
  "ravel (d # ds) (i # is) = i * prod_list ds + ravel ds is"
| "ravel _ _ = 0"

fun unravel :: "nat list \<Rightarrow> nat \<Rightarrow> nat list" where
  "unravel [] p = []"
| "unravel (d # ds) p = (p div prod_list ds) # unravel ds (p mod prod_list ds)"

definition reshape :: "ndarray \<Rightarrow> nat list \<Rightarrow> error + ndarray" where
  "reshape a s =
     (if prod_list s = prod_list (shape a)
      then Inr \<lparr>shape = s, entry = (\<lambda>i. entry a (unravel (shape a) (ravel s i)))\<rparr>
      else Inl ValueError)"

section \<open>Distributions\<close>

text \<open>
  Modelled from the spec: the module \<^verbatim>\<open>pyphi.distribution\<close> is not among the sources.
  Section 4.1: axis \<open>i\<close> of a repertoire has length 2 iff node \<open>i\<close> is in the purview,
  else 1; the max-entropy constructor is the array of ones of that shape divided by its
  number of entries (\<^verbatim>\<open>max_entropy_distribution\<close> of \<^verbatim>\<open>cyphi/utils.py\<close> is written that
  way); the purview of a repertoire is read off its axes of length 2.
\<close>

definition repertoire_shape :: "nat list \<Rightarrow> nat \<Rightarrow> nat list" where
  "repertoire_shape purview N = map (\<lambda>i. if i \<in> set purview then 2 else 1) [0..<N]"

definition max_entropy_distribution :: "nat list \<Rightarrow> nat \<Rightarrow> ndarray" where
  "max_entropy_distribution purview N =
     (let s = repertoire_shape purview N in divide_scalar (ones s) (real (prod_list s)))"

definition purview_of :: "ndarray \<Rightarrow> nat list" where
  "purview_of r = filter (\<lambda>i. shape r ! i = 2) [0..<length (shape r)]"

text \<open>
  Modelled from the spec: \<^verbatim>\<open>distribution.normalize\<close> is not among the sources. Section 4.3
  asks for L1 normalization; \<^verbatim>\<open>find_mip\<close> tests the normalized cause repertoire for being
  identically zero (section 7, unreachable state), so an array whose sum is zero comes
  back unchanged.
\<close>

definition normalize :: "ndarray \<Rightarrow> ndarray" where
  "normalize a = (let s = array_sum a in if s = 0 then a else divide_scalar a s)"

section \<open>Nodes and subsystems\<close>

text \<open>
  A node of \<^verbatim>\<open>pyphi/node.py\<close>: its index, its state, the indices of its inputs and its
  TPM, which has one axis per network node and a last axis for the node's next state. The
  axis of an input inside the subsystem has length 2; the axis of any other node has
  length 1 (a node outside the subsystem is conditioned on, a node that is no input is
  marginalized out).
\<close>

record node =
  node_index :: nat
  node_state :: nat
  node_inputs :: "nat list"
  node_tpm :: ndarray

text \<open>
  A cut is the null cut over the subsystem's nodes or a directed cut from one set of nodes
  to another (section 3).
\<close>

datatype cut = NullCut "nat list" | Cut "nat list" "nat list"

text \<open>
  A \<^verbatim>\<open>Subsystem\<close> of \<^verbatim>\<open>pyphi/subsystem.py\<close>: the network it belongs to (here an identifier
  of it), the node indices, the network state, the cut, the number of nodes of the TPM
  (\<^verbatim>\<open>tpm.shape[-1]\<close>) and the generated nodes.
\<close>

record subsystem =
  network :: nat
  node_indices :: "nat list"
  state :: "nat list"
  cut :: cut
  tpm_size :: nat
  nodes :: "node list"

text \<open>\<^verbatim>\<open>self._index2node[i]\<close>: a dictionary built from the nodes, the last entry winning.\<close>

definition index2node :: "subsystem \<Rightarrow> nat \<Rightarrow> error + node" where
  "index2node sub i =
     (case map_of (rev (map (\<lambda>n. (node_index n, n)) (nodes sub))) i of
        None \<Rightarrow> Inl KeyError
      | Some n \<Rightarrow> Inr n)"

definition ebind :: "error + 'a \<Rightarrow> ('a \<Rightarrow> error + 'b) \<Rightarrow> error + 'b" where
  "ebind m f = (case m of Inl e \<Rightarrow> Inl e | Inr x \<Rightarrow> f x)"

text \<open>A list comprehension whose body may raise: the first error ends it.\<close>

fun emap :: "('a \<Rightarrow> error + 'b) \<Rightarrow> 'a list \<Rightarrow> error + 'b list" where
  "emap f [] = Inr []"
| "emap f (x # xs) = ebind (f x) (\<lambda>y. ebind (emap f xs) (\<lambda>ys. Inr (y # ys)))"

section \<open>Repertoires\<close>

datatype direction = CAUSE | EFFECT

definition single_node_cause_repertoire ::
  "subsystem \<Rightarrow> nat \<Rightarrow> nat list \<Rightarrow> error + ndarray" where
  "single_node_cause_repertoire sub mechanism_node_index purview =
     ebind (index2node sub mechanism_node_index) (\<lambda>mechanism_node.
     ebind (index_last (node_tpm mechanism_node) (node_state mechanism_node)) (\<lambda>tpm.
       marginalize_out (filter (\<lambda>i. i \<notin> set purview) (node_inputs mechanism_node)) tpm))"

definition cause_repertoire :: "subsystem \<Rightarrow> nat list \<Rightarrow> nat list \<Rightarrow> error + ndarray" where
  "cause_repertoire sub mechanism purview =
     (if purview = [] then Inr scalar_one
      else if mechanism = [] then Inr (max_entropy_distribution purview (tpm_size sub))
      else
        ebind (emap (\<lambda>m. single_node_cause_repertoire sub m purview) mechanism) (\<lambda>rs.
        ebind (reduce_multiply rs) (\<lambda>p.
        ebind (multiply_inplace (ones (repertoire_shape purview (tpm_size sub))) p) (\<lambda>joint.
          Inr (normalize joint)))))"

definition single_node_effect_repertoire ::
  "subsystem \<Rightarrow> nat list \<Rightarrow> nat \<Rightarrow> error + ndarray" where
  "single_node_effect_repertoire sub mechanism purview_node_index =
     ebind (index2node sub purview_node_index) (\<lambda>purview_node.
     ebind (condition_tpm (node_tpm purview_node)
              (filter (\<lambda>i. i \<in> set mechanism) (node_inputs purview_node)) (state sub)) (\<lambda>tpm.
     ebind (marginalize_out
              (filter (\<lambda>i. i \<notin> set mechanism) (node_inputs purview_node)) tpm) (\<lambda>tpm'.
       reshape tpm' (repertoire_shape [node_index purview_node] (tpm_size sub)))))"

definition effect_repertoire_virtualized ::
  "subsystem \<Rightarrow> nat list \<Rightarrow> nat list \<Rightarrow> error + ndarray" where
  "effect_repertoire_virtualized sub mechanism purview =
     ebind (emap (\<lambda>p. single_node_effect_repertoire sub mechanism p) purview) (\<lambda>rs.
     ebind (reduce_multiply rs) (\<lambda>p.
       multiply (ones (repertoire_shape purview (tpm_size sub))) p))"

text \<open>
  \<^verbatim>\<open>effect_repertoire\<close> with its default \<^verbatim>\<open>nonvirtualized_units=()\<close>, the only way the
  functions below call it.
\<close>

definition effect_repertoire :: "subsystem \<Rightarrow> nat list \<Rightarrow> nat list \<Rightarrow> error + ndarray" where
  "effect_repertoire sub mechanism purview =
     (if purview = [] then Inr scalar_one
      else effect_repertoire_virtualized sub mechanism purview)"

text \<open>
  \<^verbatim>\<open>repertoire\<close> dispatches on the direction. Its last branch, \<^verbatim>\<open>validate.direction\<close>,
  is for values that are neither \<^verbatim>\<open>CAUSE\<close> nor \<^verbatim>\<open>EFFECT\<close>; the type \<open>direction\<close> (section 9:
  the variant \<open>{CAUSE, EFFECT}\<close>) has none.
\<close>

definition repertoire :: "subsystem \<Rightarrow> direction \<Rightarrow> nat list \<Rightarrow> nat list \<Rightarrow> error + ndarray" where
  "repertoire sub d mechanism purview =
     (case d of
        CAUSE \<Rightarrow> cause_repertoire sub mechanism purview
      | EFFECT \<Rightarrow> effect_repertoire sub mechanism purview)"

definition unconstrained_repertoire :: "subsystem \<Rightarrow> direction \<Rightarrow> nat list \<Rightarrow> error + ndarray" where
  "unconstrained_repertoire sub d purview = repertoire sub d [] purview"

text \<open>A partition is a sequence of parts, each a mechanism and a purview.\<close>

type_synonym part = "nat list \<times> nat list"

definition partitioned_repertoire ::
  "subsystem \<Rightarrow> direction \<Rightarrow> part list \<Rightarrow> error + ndarray" where
  "partitioned_repertoire sub d partn =
     ebind (emap (\<lambda>part. repertoire sub d (fst part) (snd part)) partn) reduce_multiply"

definition expand_repertoire ::
  "subsystem \<Rightarrow> direction \<Rightarrow> ndarray option \<Rightarrow> nat list option \<Rightarrow> error + ndarray option" where
  "expand_repertoire sub d rep new_purview =
     (case rep of
        None \<Rightarrow> Inr None
      | Some r \<Rightarrow>
          (let purview = purview_of r;
               new_purview' = (case new_purview of None \<Rightarrow> node_indices sub | Some p \<Rightarrow> p)
           in if \<not> set purview \<subseteq> set new_purview' then Inl ValueError
              else
                ebind (unconstrained_repertoire sub d
                         (remdups (filter (\<lambda>i. i \<notin> set purview) new_purview'))) (\<lambda>uc.
                ebind (multiply r uc) (\<lambda>expanded_repertoire.
                  Inr (Some (normalize expanded_repertoire))))))"

section \<open>The minimum information partition of a mechanism over a purview\<close>

text \<open>A Python float that may be \<^verbatim>\<open>float("inf")\<close>.\<close>

datatype pyfloat = Finite real | Infinity

fun float_less :: "pyfloat \<Rightarrow> pyfloat \<Rightarrow> bool" where
  "float_less (Finite x) (Finite y) = (x < y)"
| "float_less (Finite x) Infinity = True"
| "float_less Infinity _ = False"

fun float_le :: "pyfloat \<Rightarrow> pyfloat \<Rightarrow> bool" where
  "float_le (Finite x) (Finite y) = (x \<le> y)"
| "float_le _ Infinity = True"
| "float_le Infinity (Finite y) = False"

record ria =
  ria_phi :: pyfloat
  ria_direction :: direction
  ria_mechanism :: "nat list"
  ria_purview :: "nat list"
  ria_partition :: "part list option"
  ria_repertoire :: "ndarray option"
  ria_partitioned_repertoire :: "ndarray option"

text \<open>
  Modelled from the spec: \<^verbatim>\<open>_null_ria\<close> is not among the sources. Section 4.4: for an empty
  purview a null RIA with \<open>\<phi> = 0\<close> is returned; \<^verbatim>\<open>find_mip\<close> also builds one with
  \<^verbatim>\<open>phi=float("inf")\<close> to start its search.
\<close>

definition null_ria ::
  "direction \<Rightarrow> nat list \<Rightarrow> nat list \<Rightarrow> ndarray option \<Rightarrow> pyfloat \<Rightarrow> ria" where
  "null_ria d mechanism purview rep phi =
     \<lparr>ria_phi = phi, ria_direction = d, ria_mechanism = mechanism, ria_purview = purview,
      ria_partition = None, ria_repertoire = rep, ria_partitioned_repertoire = None\<rparr>"

text \<open>
  \<^verbatim>\<open>evaluate_partition\<close>. The distance between repertoires
  (\<^verbatim>\<open>metrics.distribution.repertoire_distance\<close>) is not among the sources and is the
  parameter \<open>repertoire_distance\<close>.
\<close>

definition evaluate_partition ::
  "(direction \<Rightarrow> ndarray \<Rightarrow> ndarray \<Rightarrow> real) \<Rightarrow> subsystem \<Rightarrow> direction \<Rightarrow> nat list \<Rightarrow> nat list
     \<Rightarrow> part list \<Rightarrow> ndarray option \<Rightarrow> error + real \<times> ndarray" where
  "evaluate_partition repertoire_distance sub d mechanism purview partn rep =
     ebind (case rep of None \<Rightarrow> repertoire sub d mechanism purview | Some r \<Rightarrow> Inr r) (\<lambda>r.
     ebind (partitioned_repertoire sub d partn) (\<lambda>pr.
       Inr (repertoire_distance d r pr, pr)))"

text \<open>The local function \<^verbatim>\<open>_mip\<close> of \<^verbatim>\<open>find_mip\<close>.\<close>

definition mk_mip ::
  "direction \<Rightarrow> nat list \<Rightarrow> nat list \<Rightarrow> ndarray \<Rightarrow> pyfloat \<Rightarrow> part list option \<Rightarrow> ndarray option
     \<Rightarrow> ria" where
  "mk_mip d mechanism purview rep phi partn pr =
     \<lparr>ria_phi = phi, ria_direction = d, ria_mechanism = mechanism, ria_purview = purview,
      ria_partition = partn, ria_repertoire = Some rep,
      ria_partitioned_repertoire = pr\<rparr>"

text \<open>The loop of \<^verbatim>\<open>find_mip\<close> over the partitions still to be evaluated.\<close>

fun find_mip_loop ::
  "(direction \<Rightarrow> ndarray \<Rightarrow> ndarray \<Rightarrow> real) \<Rightarrow> subsystem \<Rightarrow> direction \<Rightarrow> nat list \<Rightarrow> nat list
     \<Rightarrow> ndarray \<Rightarrow> part list list \<Rightarrow> ria \<Rightarrow> error + ria" where
  "find_mip_loop repertoire_distance sub d mechanism purview rep [] mip = Inr mip"
| "find_mip_loop repertoire_distance sub d mechanism purview rep (partn # rest) mip =
     ebind (evaluate_partition repertoire_distance sub d mechanism purview partn (Some rep)) (\<lambda>(phi, pr).
       if phi = 0 then Inr (mk_mip d mechanism purview rep (Finite 0) (Some partn) (Some pr))
       else if float_less (Finite phi) (ria_phi mip)
         then find_mip_loop repertoire_distance sub d mechanism purview rep rest
                (mk_mip d mechanism purview rep (Finite phi) (Some partn) (Some pr))
         else find_mip_loop repertoire_distance sub d mechanism purview rep rest mip)"

text \<open>
  \<^verbatim>\<open>find_mip\<close>. The enumeration of partitions (\<^verbatim>\<open>partition.mip_partitions\<close>) is not among
  the sources and is the parameter \<open>mip_partitions\<close>.
\<close>

definition find_mip ::
  "(nat list \<Rightarrow> nat list \<Rightarrow> part list list) \<Rightarrow> (direction \<Rightarrow> ndarray \<Rightarrow> ndarray \<Rightarrow> real)
     \<Rightarrow> subsystem \<Rightarrow> direction \<Rightarrow> nat list \<Rightarrow> nat list \<Rightarrow> error + ria" where
  "find_mip mip_partitions repertoire_distance sub d mechanism purview =
     (if purview = [] then Inr (null_ria d mechanism purview None (Finite 0))
      else
        ebind (repertoire sub d mechanism purview) (\<lambda>rep.
          if d = CAUSE \<and> all_zero rep
          then Inr (mk_mip d mechanism purview rep (Finite 0) None None)
          else find_mip_loop repertoire_distance sub d mechanism purview rep
                 (mip_partitions mechanism purview)
                 (null_ria d mechanism purview None Infinity)))"

subsection \<open>An example subsystem\<close>

text \<open>
  A network of two nodes: node 0 is the AND of both nodes, node 1 copies node 0. Its state
  \<open>(1, 0)\<close> is unreachable: node 0 is on only after both were on, node 1 is off only after
  node 0 was off. \<open>array_of\<close> builds an array from its shape and its entries in row-major
  order.
\<close>

definition array_of :: "nat list \<Rightarrow> real list \<Rightarrow> ndarray" where
  "array_of s xs =
     \<lparr>shape = s, entry = (\<lambda>i. if ravel s i < length xs then xs ! ravel s i else 0)\<rparr>"

definition and_copy :: subsystem where
  "and_copy =
     \<lparr>network = 0, node_indices = [0, 1], state = [1, 0], cut = NullCut [0, 1], tpm_size = 2,
      nodes = [\<lparr>node_index = 0, node_state = 1, node_inputs = [0, 1],
                 node_tpm = array_of [2, 2, 2] [1, 0, 1, 0, 1, 0, 0, 1]\<rparr>,
               \<lparr>node_index = 1, node_state = 0, node_inputs = [0],
                 node_tpm = array_of [2, 1, 2] [1, 0, 0, 1]\<rparr>]\<rparr>"

text \<open>An example distance between two repertoires of one shape: the sum of the absolute differences.\<close>

definition l1_distance :: "direction \<Rightarrow> ndarray \<Rightarrow> ndarray \<Rightarrow> real" where
  "l1_distance d a b = sum_list (map (\<lambda>i. \<bar>entry a i - entry b i\<bar>) (indices (shape a)))"

definition example_partitions :: "nat list \<Rightarrow> nat list \<Rightarrow> part list list" where
  "example_partitions mechanism purview =
     [[([0], [0]), ([], [1])], [([], [0]), ([0], [1])]]"

subsection \<open>Properties of the search\<close>

lemma ebind_simps [simp]:
  "ebind (Inl e) f = Inl e"
  "ebind (Inr x) f = f x"
  by (simp_all add: ebind_def)

lemma float_le_refl [simp]: "float_le x x"
  by (cases x) simp_all

lemma float_le_trans: "float_le x y \<Longrightarrow> float_le y z \<Longrightarrow> float_le x z"
  by (cases x; cases y; cases z) simp_all

lemma float_less_imp_le: "float_less x y \<Longrightarrow> float_le x y"
  by (cases x; cases y) simp_all

lemma not_float_less_imp_le: "\<not> float_less x y \<Longrightarrow> float_le y x"
  by (cases x; cases y) simp_all

lemma find_mip_loop_min:
  assumes "\<forall>p\<in>set ps. \<exists>phi pr. evaluate_partition D sub d m pv p (Some rep) = Inr (phi, pr) \<and> 0 \<le> phi"
    and "float_le (Finite 0) (ria_phi mip)"
  shows "\<exists>r. find_mip_loop D sub d m pv rep ps mip = Inr r
     \<and> float_le (Finite 0) (ria_phi r)
     \<and> float_le (ria_phi r) (ria_phi mip)
     \<and> (\<forall>p\<in>set ps. \<forall>phi pr. evaluate_partition D sub d m pv p (Some rep) = Inr (phi, pr)
            \<longrightarrow> float_le (ria_phi r) (Finite phi))
     \<and> (ria_phi r = ria_phi mip
          \<or> (\<exists>p\<in>set ps. \<exists>phi pr. evaluate_partition D sub d m pv p (Some rep) = Inr (phi, pr)
                \<and> ria_phi r = Finite phi))"
  using assms
proof (induction ps arbitrary: mip)
  case Nil
  then show ?case by simp
next
  case (Cons p ps)
  from Cons.prems(1) obtain phi pr where
    ev: "evaluate_partition D sub d m pv p (Some rep) = Inr (phi, pr)" and nn: "0 \<le> phi"
    by auto
  have rest: "\<forall>q\<in>set ps. \<exists>phi pr. evaluate_partition D sub d m pv q (Some rep) = Inr (phi, pr) \<and> 0 \<le> phi"
    using Cons.prems(1) by simp
  show ?case
  proof (cases "phi = 0")
    case True
    let ?r = "mk_mip d m pv rep (Finite 0) (Some p) (Some pr)"
    have 1: "find_mip_loop D sub d m pv rep (p # ps) mip = Inr ?r"
      using ev True by simp
    have 2: "ria_phi ?r = Finite 0" by (simp add: mk_mip_def)
    have 3: "\<forall>q\<in>set (p # ps). \<forall>phi' pr'. evaluate_partition D sub d m pv q (Some rep) = Inr (phi', pr')
            \<longrightarrow> float_le (Finite 0) (Finite phi')"
      using Cons.prems(1) by fastforce
    show ?thesis
      unfolding 1 using 2 3 Cons.prems(2) ev True by auto
  next
    case False
    show ?thesis
    proof (cases "float_less (Finite phi) (ria_phi mip)")
      case True
      let ?mip' = "mk_mip d m pv rep (Finite phi) (Some p) (Some pr)"
      have 1: "find_mip_loop D sub d m pv rep (p # ps) mip = find_mip_loop D sub d m pv rep ps ?mip'"
        using ev False True by simp
      have 2: "ria_phi ?mip' = Finite phi" by (simp add: mk_mip_def)
      have "float_le (Finite 0) (ria_phi ?mip')" using nn 2 by simp
      from Cons.IH[OF rest this] obtain r where
        r: "find_mip_loop D sub d m pv rep ps ?mip' = Inr r"
          "float_le (Finite 0) (ria_phi r)"
          "float_le (ria_phi r) (ria_phi ?mip')"
          "\<forall>q\<in>set ps. \<forall>phi pr. evaluate_partition D sub d m pv q (Some rep) = Inr (phi, pr)
            \<longrightarrow> float_le (ria_phi r) (Finite phi)"
          "ria_phi r = ria_phi ?mip'
          \<or> (\<exists>q\<in>set ps. \<exists>phi pr. evaluate_partition D sub d m pv q (Some rep) = Inr (phi, pr)
                \<and> ria_phi r = Finite phi)"
        by blast
      have a: "float_le (ria_phi r) (ria_phi mip)"
        using r(3) 2 True float_le_trans float_less_imp_le by metis
      have b: "\<forall>q\<in>set (p # ps). \<forall>phi' pr'. evaluate_partition D sub d m pv q (Some rep) = Inr (phi', pr')
            \<longrightarrow> float_le (ria_phi r) (Finite phi')"
        using r(3,4) 2 ev by auto
      have c: "\<exists>q\<in>set (p # ps). \<exists>phi pr. evaluate_partition D sub d m pv q (Some rep) = Inr (phi, pr)
                \<and> ria_phi r = Finite phi"
        using r(5) 2 ev by auto
      show ?thesis unfolding 1 using r(1,2) a b c by blast
    next
      case nl: False
      have 1: "find_mip_loop D sub d m pv rep (p # ps) mip = find_mip_loop D sub d m pv rep ps mip"
        using ev False nl by simp
      from Cons.IH[OF rest Cons.prems(2)] obtain r where
        r: "find_mip_loop D sub d m pv rep ps mip = Inr r"
          "float_le (Finite 0) (ria_phi r)"
          "float_le (ria_phi r) (ria_phi mip)"
          "\<forall>q\<in>set ps. \<forall>phi pr. evaluate_partition D sub d m pv q (Some rep) = Inr (phi, pr)
            \<longrightarrow> float_le (ria_phi r) (Finite phi)"
          "ria_phi r = ria_phi mip
          \<or> (\<exists>q\<in>set ps. \<exists>phi pr. evaluate_partition D sub d m pv q (Some rep) = Inr (phi, pr)
                \<and> ria_phi r = Finite phi)"
        by blast
      have "float_le (ria_phi mip) (Finite phi)" using nl not_float_less_imp_le by blast
      then have "float_le (ria_phi r) (Finite phi)" using r(3) float_le_trans by blast
      then have b: "\<forall>q\<in>set (p # ps). \<forall>phi' pr'. evaluate_partition D sub d m pv q (Some rep) = Inr (phi', pr')
            \<longrightarrow> float_le (ria_phi r) (Finite phi')"
        using r(4) ev by auto
      have c: "ria_phi r = ria_phi mip
          \<or> (\<exists>q\<in>set (p # ps). \<exists>phi pr. evaluate_partition D sub d m pv q (Some rep) = Inr (phi, pr)
                \<and> ria_phi r = Finite phi)"
        using r(5) by auto
      show ?thesis unfolding 1 using r(1,2,3) b c by blast
    qed
  qed
qed

lemma evaluate_partition_Some:
  "evaluate_partition D sub d m pv p (Some rep) =
     (case partitioned_repertoire sub d p of Inl e \<Rightarrow> Inl e | Inr pr \<Rightarrow> Inr (D d rep pr, pr))"
  by (simp add: evaluate_partition_def ebind_def)

text \<open>
  Claim C2. For a non-empty purview whose unpartitioned repertoire is not identically zero,
  \<^verbatim>\<open>find_mip\<close> returns an analysis whose \<open>\<phi>\<close> is the minimum of the distances of the
  enumerated partitions: it is at most the distance of every partition and is the distance
  of one of them (\<^verbatim>\<open>float("inf")\<close> when no partition is enumerated); if some partition has
  distance 0, the returned \<open>\<phi>\<close> is 0. The distance is taken to be non-negative (section 7:
  values below zero are clamped to 0) and every partitioned repertoire to be computable.
\<close>

theorem find_mip_minimum:
  assumes "purview \<noteq> []"
    and "repertoire sub d mechanism purview = Inr rep"
    and "\<not> all_zero rep"
    and "\<forall>p\<in>set (mip_partitions mechanism purview). \<exists>pr. partitioned_repertoire sub d p = Inr pr"
    and "\<forall>a b. 0 \<le> D d a b"
  shows "\<exists>r. find_mip mip_partitions D sub d mechanism purview = Inr r
     \<and> (\<forall>p\<in>set (mip_partitions mechanism purview). \<forall>phi pr.
           evaluate_partition D sub d mechanism purview p (Some rep) = Inr (phi, pr)
             \<longrightarrow> float_le (ria_phi r) (Finite phi))
     \<and> (if mip_partitions mechanism purview = [] then ria_phi r = Infinity
        else \<exists>p\<in>set (mip_partitions mechanism purview). \<exists>phi pr.
           evaluate_partition D sub d mechanism purview p (Some rep) = Inr (phi, pr)
             \<and> ria_phi r = Finite phi)
     \<and> ((\<exists>p\<in>set (mip_partitions mechanism purview). \<exists>pr.
           evaluate_partition D sub d mechanism purview p (Some rep) = Inr (0, pr))
          \<longrightarrow> ria_phi r = Finite 0)"
proof -
  let ?ps = "mip_partitions mechanism purview"
  let ?mip = "null_ria d mechanism purview None Infinity"
  have ev: "\<forall>p\<in>set ?ps. \<exists>phi pr.
      evaluate_partition D sub d mechanism purview p (Some rep) = Inr (phi, pr) \<and> 0 \<le> phi"
    using assms(4,5) by (fastforce simp: evaluate_partition_Some)
  have start: "float_le (Finite 0) (ria_phi ?mip)"
    by (simp add: null_ria_def)
  from find_mip_loop_min[OF ev start] obtain r where
    r: "find_mip_loop D sub d mechanism purview rep ?ps ?mip = Inr r"
       "float_le (Finite 0) (ria_phi r)"
       "\<forall>p\<in>set ?ps. \<forall>phi pr. evaluate_partition D sub d mechanism purview p (Some rep) = Inr (phi, pr)
            \<longrightarrow> float_le (ria_phi r) (Finite phi)"
       "ria_phi r = ria_phi ?mip
          \<or> (\<exists>p\<in>set ?ps. \<exists>phi pr. evaluate_partition D sub d mechanism purview p (Some rep) = Inr (phi, pr)
                \<and> ria_phi r = Finite phi)"
    by blast
  have fm: "find_mip mip_partitions D sub d mechanism purview = Inr r"
    using assms(1,2,3) r(1) by (simp add: find_mip_def)
  have inf: "ria_phi ?mip = Infinity" by (simp add: null_ria_def)
  have ex: "\<exists>p\<in>set ?ps. \<exists>phi pr.
           evaluate_partition D sub d mechanism purview p (Some rep) = Inr (phi, pr)
             \<and> ria_phi r = Finite phi" if ne: "?ps \<noteq> []"
  proof -
    from ne obtain p where p: "p \<in> set ?ps" by (cases ?ps) auto
    with ev obtain phi pr where
      "evaluate_partition D sub d mechanism purview p (Some rep) = Inr (phi, pr)" by blast
    with r(3) p have "float_le (ria_phi r) (Finite phi)" by blast
    then have "ria_phi r \<noteq> Infinity" by auto
    with r(4) inf show ?thesis by simp
  qed
  have emp: "ria_phi r = Infinity" if "?ps = []"
    using r(4) inf that by simp
  have zero: "ria_phi r = Finite 0"
    if z: "\<exists>p\<in>set ?ps. \<exists>pr. evaluate_partition D sub d mechanism purview p (Some rep) = Inr (0, pr)"
  proof -
    from z r(3) have "float_le (ria_phi r) (Finite 0)" by blast
    with r(2) show ?thesis by (cases "ria_phi r") auto
  qed
  show ?thesis
    using fm r(3) ex emp zero by (intro exI[of _ r]) auto
qed

lemma example_rep: "\<not> isl (repertoire and_copy EFFECT [0] [0, 1])"
  by code_simp

theorem find_mip_minimum_witness:
  "\<exists>r. find_mip example_partitions l1_distance and_copy EFFECT [0] [0, 1] = Inr r
     \<and> ria_phi r = Finite (1 / 2)"
proof -
  let ?rep = "projr (repertoire and_copy EFFECT [0] [0, 1])"
  have h1: "[0, 1] \<noteq> ([] :: nat list)" by simp
  have h2: "repertoire and_copy EFFECT [0] [0, 1] = Inr ?rep"
    using example_rep by simp
  have h3: "\<not> all_zero ?rep" by code_simp
  have h4: "\<forall>p\<in>set (example_partitions [0] [0, 1]).
      \<exists>pr. partitioned_repertoire and_copy EFFECT p = Inr pr"
  proof -
    have "list_all (\<lambda>p. \<not> isl (partitioned_repertoire and_copy EFFECT p)) (example_partitions [0] [0, 1])"
      by code_simp
    then show ?thesis
      by (metis (mono_tags, lifting) list_all_iff sum.collapse(2))
  qed
  have h5: "\<forall>a b. 0 \<le> l1_distance EFFECT a b"
    by (auto simp: l1_distance_def intro!: sum_list_nonneg)
  from find_mip_minimum[where mip_partitions = example_partitions and D = l1_distance,
      OF h1 h2 h3 h4 h5] obtain r where
    r: "find_mip example_partitions l1_distance and_copy EFFECT [0] [0, 1] = Inr r"
       "\<forall>p\<in>set (example_partitions [0] [0, 1]). \<forall>phi pr.
           evaluate_partition l1_distance and_copy EFFECT [0] [0, 1] p (Some ?rep) = Inr (phi, pr)
             \<longrightarrow> float_le (ria_phi r) (Finite phi)"
       "(if example_partitions [0] [0, 1] = [] then ria_phi r = Infinity
        else \<exists>p\<in>set (example_partitions [0] [0, 1]). \<exists>phi pr.
           evaluate_partition l1_distance and_copy EFFECT [0] [0, 1] p (Some ?rep) = Inr (phi, pr)
             \<and> ria_phi r = Finite phi)"
    by blast
  have e1: "map_sum id fst (evaluate_partition l1_distance and_copy EFFECT [0] [0, 1] [([0], [0]), ([], [1])] (Some ?rep)) = Inr 1"
    by code_simp
  have e2: "map_sum id fst (evaluate_partition l1_distance and_copy EFFECT [0] [0, 1] [([], [0]), ([0], [1])] (Some ?rep)) = Inr (1 / 2)"
    by code_simp
  from e1 obtain pr1 where p1: "evaluate_partition l1_distance and_copy EFFECT [0] [0, 1] [([0], [0]), ([], [1])] (Some ?rep) = Inr (1, pr1)"
    by (cases "evaluate_partition l1_distance and_copy EFFECT [0] [0, 1] [([0], [0]), ([], [1])] (Some ?rep)") auto
  from e2 obtain pr2 where p2: "evaluate_partition l1_distance and_copy EFFECT [0] [0, 1] [([], [0]), ([0], [1])] (Some ?rep) = Inr (1 / 2, pr2)"
    by (cases "evaluate_partition l1_distance and_copy EFFECT [0] [0, 1] [([], [0]), ([0], [1])] (Some ?rep)") auto
  have le: "float_le (ria_phi r) (Finite (1 / 2))"
    using r(2) p2 by (simp add: example_partitions_def)
  have "ria_phi r = Finite 1 \<or> ria_phi r = Finite (1 / 2)"
    using r(3) p1 p2 by (auto simp: example_partitions_def)
  with le have "ria_phi r = Finite (1 / 2)" by auto
  with r(1) show ?thesis by blast
qed

text \<open>
  Claim C8. In the cause direction, when the unpartitioned cause repertoire is identically
  zero (the current state is unreachable), \<^verbatim>\<open>find_mip\<close> returns normally, with \<open>\<phi> = 0\<close>,
  whatever the partitions and the distance are.
\<close>

theorem find_mip_unreachable_state:
  assumes "repertoire sub CAUSE mechanism purview = Inr rep"
    and "all_zero rep"
  shows "\<exists>r. find_mip mip_partitions D sub CAUSE mechanism purview = Inr r
           \<and> ria_phi r = Finite 0"
proof (cases "purview = []")
  case True
  then show ?thesis by (simp add: find_mip_def null_ria_def)
next
  case False
  then show ?thesis using assms by (simp add: find_mip_def mk_mip_def)
qed

lemma unreachable_rep: "\<not> isl (repertoire and_copy CAUSE [0, 1] [0, 1])"
  by code_simp

theorem find_mip_unreachable_state_witness:
  "all_zero (projr (repertoire and_copy CAUSE [0, 1] [0, 1]))
   \<and> (\<exists>r. find_mip example_partitions l1_distance and_copy CAUSE [0, 1] [0, 1] = Inr r
           \<and> ria_phi r = Finite 0)"
proof -
  have h1: "repertoire and_copy CAUSE [0, 1] [0, 1] = Inr (projr (repertoire and_copy CAUSE [0, 1] [0, 1]))"
    using unreachable_rep by simp
  have h2: "all_zero (projr (repertoire and_copy CAUSE [0, 1] [0, 1]))"
    by code_simp
  show ?thesis
    using find_mip_unreachable_state[where mip_partitions = example_partitions
        and D = l1_distance, OF h1 h2] h2 by blast
qed

section \<open>Concepts and system irreducibility analyses\<close>

text \<open>
  A maximally irreducible cause or effect, of which \<^verbatim>\<open>compute.py\<close> reads \<^verbatim>\<open>phi\<close>, and a
  concept as \<^verbatim>\<open>_concept\<close> builds it.
\<close>

record mice =
  mice_phi :: real
  mice_purview :: "nat list"
  mice_repertoire :: "real list"

record concept =
  concept_mechanism :: "nat list"
  concept_phi :: real
  concept_cause :: mice
  concept_effect :: mice

text \<open>\<^verbatim>\<open>SystemIrreducibilityAnalysis\<close> of \<^verbatim>\<open>pyphi/models/subsystem.py\<close>.\<close>

record sia =
  sia_phi :: real
  sia_ces :: "concept list"
  sia_partitioned_ces :: "concept list"
  sia_subsystem :: subsystem
  sia_cut_subsystem :: subsystem

definition sia_cut :: "sia \<Rightarrow> cut" where
  "sia_cut a = cut (sia_cut_subsystem a)"

definition sia_network :: "sia \<Rightarrow> nat" where
  "sia_network a = network (sia_subsystem a)"

text \<open>\<^verbatim>\<open>order_by\<close>: the list \<^verbatim>\<open>[phi, len(subsystem), subsystem.node_indices]\<close>.\<close>

definition order_by :: "sia \<Rightarrow> real \<times> nat \<times> nat list" where
  "order_by a =
     (sia_phi a, length (node_indices (sia_subsystem a)), node_indices (sia_subsystem a))"

text \<open>Python's \<^verbatim>\<open><\<close> on tuples of integers and on the lists \<^verbatim>\<open>order_by\<close> returns.\<close>

fun tuple_less :: "nat list \<Rightarrow> nat list \<Rightarrow> bool" where
  "tuple_less [] [] = False"
| "tuple_less [] (y # ys) = True"
| "tuple_less (x # xs) [] = False"
| "tuple_less (x # xs) (y # ys) = (if x = y then tuple_less xs ys else x < y)"

fun key_less :: "real \<times> nat \<times> nat list \<Rightarrow> real \<times> nat \<times> nat list \<Rightarrow> bool" where
  "key_less (p, n, is) (q, m, js) =
     (if p \<noteq> q then p < q else if n \<noteq> m then n < m else tuple_less is js)"

text \<open>
  Modelled from the spec: the base class \<^verbatim>\<open>cmp.Orderable\<close> is not among the sources.
  Section 6 has the results ordered by the key of \<^verbatim>\<open>order_by\<close>; the class attribute
  \<^verbatim>\<open>unorderable_unless_eq = ["network"]\<close> and \<^verbatim>\<open>test_sia_concept_style_ordering\<close> have the
  comparison of results of different networks raise \<^verbatim>\<open>TypeError\<close>.
\<close>

definition sia_lt :: "sia \<Rightarrow> sia \<Rightarrow> error + bool" where
  "sia_lt a b =
     (if sia_network a \<noteq> sia_network b then Inl TypeError
      else Inr (key_less (order_by a) (order_by b)))"

text \<open>
  Python's \<^verbatim>\<open>min\<close> over a sequence: the first item is the candidate, and a later item
  replaces the candidate only when it compares less.
\<close>

fun py_min_from :: "('a \<Rightarrow> 'a \<Rightarrow> error + bool) \<Rightarrow> 'a \<Rightarrow> 'a list \<Rightarrow> error + 'a" where
  "py_min_from lt cur [] = Inr cur"
| "py_min_from lt cur (x # xs) =
     ebind (lt x cur) (\<lambda>b. py_min_from lt (if b then x else cur) xs)"

definition py_min :: "('a \<Rightarrow> 'a \<Rightarrow> error + bool) \<Rightarrow> 'a list \<Rightarrow> error + 'a" where
  "py_min lt xs = (case xs of [] \<Rightarrow> Inl ValueError | x # rest \<Rightarrow> py_min_from lt x rest)"

text \<open>Two candidates of the example subsystem with the same \<open>\<Phi>\<close> and opposite cuts.\<close>

definition candidate_forward :: sia where
  "candidate_forward =
     \<lparr>sia_phi = 1 / 4, sia_ces = [], sia_partitioned_ces = [],
      sia_subsystem = and_copy, sia_cut_subsystem = and_copy\<lparr>cut := Cut [0] [1]\<rparr>\<rparr>"

definition candidate_backward :: sia where
  "candidate_backward =
     \<lparr>sia_phi = 1 / 4, sia_ces = [], sia_partitioned_ces = [],
      sia_subsystem = and_copy, sia_cut_subsystem = and_copy\<lparr>cut := Cut [1] [0]\<rparr>\<rparr>"

lemma tuple_less_irrefl [simp]: "\<not> tuple_less xs xs"
  by (induction xs) simp_all

lemma sia_lt_same_subsystem:
  assumes "network (sia_subsystem a) = network (sia_subsystem b)"
    and "node_indices (sia_subsystem a) = node_indices (sia_subsystem b)"
  shows "sia_lt a b = Inr (sia_phi a < sia_phi b)"
  using assms by (simp add: sia_lt_def sia_network_def order_by_def)

lemma py_min_from_first:
  assumes "\<forall>c\<in>set (cur # xs). network (sia_subsystem c) = n \<and> node_indices (sia_subsystem c) = is"
  shows "\<exists>m ys zs. py_min_from sia_lt cur xs = Inr m \<and> cur # xs = ys @ m # zs
           \<and> (\<forall>y\<in>set ys. sia_phi m < sia_phi y) \<and> (\<forall>z\<in>set zs. sia_phi m \<le> sia_phi z)"
  using assms
proof (induction xs arbitrary: cur)
  case Nil
  have "[cur] = [] @ cur # []" by simp
  then show ?case by (metis empty_iff list.set(1) py_min_from.simps(1))
next
  case (Cons x xs)
  have lt: "sia_lt x cur = Inr (sia_phi x < sia_phi cur)"
    using Cons.prems by (intro sia_lt_same_subsystem) auto
  show ?case
  proof (cases "sia_phi x < sia_phi cur")
    case True
    have "\<forall>c\<in>set (x # xs). network (sia_subsystem c) = n \<and> node_indices (sia_subsystem c) = is"
      using Cons.prems by simp
    from Cons.IH[OF this] obtain m ys zs where
      m: "py_min_from sia_lt x xs = Inr m" "x # xs = ys @ m # zs"
         "\<forall>y\<in>set ys. sia_phi m < sia_phi y" "\<forall>z\<in>set zs. sia_phi m \<le> sia_phi z"
      by blast
    have "sia_phi m \<le> sia_phi x"
    proof (cases ys)
      case Nil
      with m(2) show ?thesis by simp
    next
      case (Cons y ys')
      with m(2) have "x \<in> set ys" by simp
      with m(3) show ?thesis by fastforce
    qed
    with True have "sia_phi m < sia_phi cur" by simp
    then have "\<forall>y\<in>set (cur # ys). sia_phi m < sia_phi y" using m(3) by simp
    moreover have "cur # x # xs = (cur # ys) @ m # zs" using m(2) by simp
    moreover have "py_min_from sia_lt cur (x # xs) = Inr m" using lt True m(1) by simp
    ultimately show ?thesis using m(4) by blast
  next
    case False
    have "\<forall>c\<in>set (cur # xs). network (sia_subsystem c) = n \<and> node_indices (sia_subsystem c) = is"
      using Cons.prems by simp
    from Cons.IH[OF this] obtain m ys zs where
      m: "py_min_from sia_lt cur xs = Inr m" "cur # xs = ys @ m # zs"
         "\<forall>y\<in>set ys. sia_phi m < sia_phi y" "\<forall>z\<in>set zs. sia_phi m \<le> sia_phi z"
      by blast
    have r: "py_min_from sia_lt cur (x # xs) = Inr m" using lt False m(1) by simp
    show ?thesis
    proof (cases ys)
      case Nil
      with m(2) have "m = cur" "zs = xs" by simp_all
      then have "cur # x # xs = [] @ m # (x # xs)" by simp
      moreover have "\<forall>z\<in>set (x # xs). sia_phi m \<le> sia_phi z"
        using m(4) False \<open>m = cur\<close> \<open>zs = xs\<close> by auto
      ultimately show ?thesis using r by (metis empty_iff list.set(1))
    next
      case (Cons y ys')
      with m(2) have c: "y = cur" "xs = ys' @ m # zs" by simp_all
      then have "sia_phi m < sia_phi cur" using m(3) Cons by simp
      with False have "sia_phi m < sia_phi x" by simp
      then have "\<forall>y\<in>set (cur # x # ys'). sia_phi m < sia_phi y"
        using m(3) Cons c by simp
      moreover have "cur # x # xs = (cur # x # ys') @ m # zs" using c by simp
      ultimately show ?thesis using r m(4) by blast
    qed
  qed
qed

text \<open>
  Claim C9, as amended. The comparison of two system irreducibility analyses orders them by
  \<open>\<Phi>\<close>, then by the size of the subsystem, then by its node indices; the cut is not part of
  the key. Among the candidates of one subsystem the comparison is that of \<open>\<Phi>\<close> alone, so
  candidates with equal \<open>\<Phi>\<close> are tied whatever their cuts, and \<^verbatim>\<open>min\<close> returns the first
  candidate of minimal \<open>\<Phi>\<close> in the order of enumeration.
\<close>

theorem min_over_cuts_first_minimal:
  assumes "cs \<noteq> []"
    and "\<forall>c\<in>set cs. network (sia_subsystem c) = n \<and> node_indices (sia_subsystem c) = is"
  shows "(\<forall>a\<in>set cs. \<forall>b\<in>set cs. sia_lt a b = Inr (sia_phi a < sia_phi b))
     \<and> (\<exists>m ys zs. py_min sia_lt cs = Inr m \<and> cs = ys @ m # zs
           \<and> (\<forall>y\<in>set ys. sia_phi m < sia_phi y) \<and> (\<forall>z\<in>set zs. sia_phi m \<le> sia_phi z))"
proof
  show "\<forall>a\<in>set cs. \<forall>b\<in>set cs. sia_lt a b = Inr (sia_phi a < sia_phi b)"
    using assms(2) by (auto intro!: sia_lt_same_subsystem)
next
  from assms(1) obtain c rest where cs: "cs = c # rest" by (cases cs) auto
  with py_min_from_first[of c rest n "is"] assms(2)
  show "\<exists>m ys zs. py_min sia_lt cs = Inr m \<and> cs = ys @ m # zs
           \<and> (\<forall>y\<in>set ys. sia_phi m < sia_phi y) \<and> (\<forall>z\<in>set zs. sia_phi m \<le> sia_phi z)"
    by (simp add: py_min_def)
qed

theorem min_over_cuts_first_minimal_witness:
  "sia_lt candidate_forward candidate_backward = Inr False
   \<and> sia_lt candidate_backward candidate_forward = Inr False
   \<and> py_min sia_lt [candidate_forward, candidate_backward] = Inr candidate_forward
   \<and> py_min sia_lt [candidate_backward, candidate_forward] = Inr candidate_backward"
proof -
  have h1: "[candidate_forward, candidate_backward] \<noteq> []" by simp
  have h2: "\<forall>c\<in>set [candidate_forward, candidate_backward].
      network (sia_subsystem c) = 0 \<and> node_indices (sia_subsystem c) = [0, 1]"
    by (simp add: candidate_forward_def candidate_backward_def and_copy_def)
  have phis: "sia_phi candidate_forward = 1 / 4" "sia_phi candidate_backward = 1 / 4"
    by (simp_all add: candidate_forward_def candidate_backward_def)
  from min_over_cuts_first_minimal[OF h1 h2]
  have lt: "sia_lt candidate_forward candidate_backward = Inr False"
      "sia_lt candidate_backward candidate_forward = Inr False"
    using phis by simp_all
  then show ?thesis by (simp add: py_min_def)
qed

text \<open>
  Claim C9 as stated fails: two candidates of one subsystem with the same \<open>\<Phi>\<close> and different
  cuts are not ordered by the comparison, in either direction.
\<close>

theorem order_has_no_cut_tie_breaker:
  "sia_cut candidate_forward \<noteq> sia_cut candidate_backward
   \<and> sia_phi candidate_forward = sia_phi candidate_backward
   \<and> sia_lt candidate_forward candidate_backward = Inr False
   \<and> sia_lt candidate_backward candidate_forward = Inr False"
  by (simp add: sia_lt_def sia_network_def order_by_def sia_cut_def
      candidate_forward_def candidate_backward_def and_copy_def)

section \<open>Properties of the cause repertoire\<close>

lemma length_indices: "length (indices s) = prod_list s"
proof (induction s)
  case Nil
  then show ?case by simp
next
  case (Cons d ds)
  have "length (indices (d # ds)) = sum_list (map (\<lambda>i. length (indices ds)) [0..<d])"
    by (simp add: length_concat comp_def)
  also have "\<dots> = d * prod_list ds"
    using Cons.IH by (simp add: sum_list_triv)
  finally show ?case by simp
qed

lemma sum_list_divide: "sum_list (map (\<lambda>i. f i / (c::real)) xs) = sum_list (map f xs) / c"
  by (induction xs) (simp_all add: add_divide_distrib)

lemma array_sum_divide_scalar: "array_sum (divide_scalar a c) = array_sum a / c"
  by (simp add: array_sum_def divide_scalar_def sum_list_divide)

lemma array_sum_normalize: "array_sum (normalize a) = 1 \<or> (array_sum a = 0 \<and> normalize a = a)"
  by (simp add: normalize_def Let_def array_sum_divide_scalar)

definition nonneg :: "ndarray \<Rightarrow> bool" where
  "nonneg a = (\<forall>i. 0 \<le> entry a i)"

lemma nonneg_ones: "nonneg (ones s)"
  by (simp add: nonneg_def ones_def)

lemma nonneg_multiply: "nonneg a \<Longrightarrow> nonneg b \<Longrightarrow> multiply a b = Inr c \<Longrightarrow> nonneg c"
  by (auto simp: nonneg_def multiply_def split: option.splits)

lemma nonneg_multiply_inplace:
  "nonneg a \<Longrightarrow> nonneg b \<Longrightarrow> multiply_inplace a b = Inr c \<Longrightarrow> nonneg c"
  by (auto simp: multiply_inplace_def split: sum.splits if_splits dest: nonneg_multiply)

lemma nonneg_multiply_from:
  "nonneg a \<Longrightarrow> \<forall>x\<in>set xs. nonneg x \<Longrightarrow> multiply_from a xs = Inr c \<Longrightarrow> nonneg c"
proof (induction xs arbitrary: a)
  case Nil
  then show ?case by simp
next
  case (Cons x xs)
  then show ?case
    by (auto split: sum.splits dest: nonneg_multiply)
qed

lemma nonneg_reduce_multiply:
  "\<forall>x\<in>set xs. nonneg x \<Longrightarrow> reduce_multiply xs = Inr c \<Longrightarrow> nonneg c"
  by (cases xs) (auto dest: nonneg_multiply_from)

lemma nonneg_marginalize_axis: "nonneg a \<Longrightarrow> nonneg (marginalize_axis k a)"
  by (auto simp: nonneg_def marginalize_axis_def intro!: divide_nonneg_nonneg sum_list_nonneg)

lemma nonneg_fold_marginalize: "nonneg a \<Longrightarrow> nonneg (fold marginalize_axis ks a)"
  by (induction ks arbitrary: a) (simp_all add: nonneg_marginalize_axis)

lemma nonneg_marginalize_out: "nonneg a \<Longrightarrow> marginalize_out ks a = Inr b \<Longrightarrow> nonneg b"
  by (auto simp: marginalize_out_def nonneg_fold_marginalize split: if_splits)

lemma nonneg_index_last: "nonneg a \<Longrightarrow> index_last a k = Inr b \<Longrightarrow> nonneg b"
  by (auto simp: index_last_def nonneg_def split: if_splits)

lemma ebind_eq_Inr: "ebind m f = Inr y \<longleftrightarrow> (\<exists>x. m = Inr x \<and> f x = Inr y)"
  by (cases m) simp_all

lemma emap_Inr_all:
  "emap f xs = Inr ys \<Longrightarrow> \<forall>y\<in>set ys. \<exists>x\<in>set xs. f x = Inr y"
proof (induction xs arbitrary: ys)
  case Nil
  then show ?case by simp
next
  case (Cons x xs)
  from Cons.prems obtain z zs where
    z: "f x = Inr z" "emap f xs = Inr zs" "ys = z # zs"
    by (auto simp: ebind_eq_Inr)
  from Cons.IH[OF z(2)] z(1,3) show ?case by auto
qed

lemma index2node_mem: "index2node sub i = Inr n \<Longrightarrow> n \<in> set (nodes sub)"
  by (auto simp: index2node_def split: option.splits dest!: map_of_SomeD)

lemma nonneg_single_node_cause_repertoire:
  assumes "\<forall>n\<in>set (nodes sub). nonneg (node_tpm n)"
    and "single_node_cause_repertoire sub m purview = Inr r"
  shows "nonneg r"
proof -
  from assms(2) obtain n t where
    n: "index2node sub m = Inr n" and t: "index_last (node_tpm n) (node_state n) = Inr t"
    and r: "marginalize_out (filter (\<lambda>i. i \<notin> set purview) (node_inputs n)) t = Inr r"
    by (auto simp: single_node_cause_repertoire_def ebind_eq_Inr)
  have "nonneg (node_tpm n)" using assms(1) index2node_mem[OF n] by blast
  then have "nonneg t" using t nonneg_index_last by blast
  then show ?thesis using r nonneg_marginalize_out by blast
qed

lemma all_zero_if_sum_zero:
  assumes "nonneg a" and "array_sum a = 0"
  shows "all_zero a"
proof -
  have "\<forall>x\<in>set (map (entry a) (indices (shape a))). x = 0"
    using assms by (subst sum_list_nonneg_eq_0_iff[symmetric]) (auto simp: nonneg_def array_sum_def)
  then show ?thesis by (simp add: all_zero_def list_all_iff)
qed

lemma prod_list_repertoire_shape_pos: "0 < prod_list (repertoire_shape purview N)"
  by (induction N) (simp_all add: repertoire_shape_def)

lemma array_sum_max_entropy: "array_sum (max_entropy_distribution purview N) = 1"
proof -
  let ?s = "repertoire_shape purview N"
  have "array_sum (ones ?s) = real (prod_list ?s)"
    by (simp add: array_sum_def ones_def sum_list_triv length_indices)
  moreover have "real (prod_list ?s) \<noteq> 0"
    using prod_list_repertoire_shape_pos[of purview N] by simp
  ultimately show ?thesis
    by (simp add: max_entropy_distribution_def Let_def array_sum_divide_scalar)
qed

text \<open>
  The array that \<^verbatim>\<open>_cause_repertoire\<close> normalizes, its variable \<^verbatim>\<open>joint\<close>: the product of the
  single-node cause repertoires, multiplied into an array of ones.
\<close>

definition cause_joint :: "subsystem \<Rightarrow> nat list \<Rightarrow> nat list \<Rightarrow> error + ndarray" where
  "cause_joint sub mechanism purview =
     ebind (emap (\<lambda>m. single_node_cause_repertoire sub m purview) mechanism) (\<lambda>rs.
     ebind (reduce_multiply rs) (\<lambda>p.
       multiply_inplace (ones (repertoire_shape purview (tpm_size sub))) p))"

lemma cause_repertoire_joint:
  assumes "purview \<noteq> []" and "mechanism \<noteq> []"
  shows "cause_repertoire sub mechanism purview
     = ebind (cause_joint sub mechanism purview) (\<lambda>joint. Inr (normalize joint))"
proof -
  have assoc: "ebind (ebind m f) g = ebind m (\<lambda>x. ebind (f x) g)" for m :: "error + 'a"
    and f :: "'a \<Rightarrow> error + 'b" and g :: "'b \<Rightarrow> error + 'c"
    by (cases m) simp_all
  show ?thesis
    using assms by (simp add: cause_repertoire_def cause_joint_def assoc)
qed

lemma nonneg_cause_joint:
  assumes "\<forall>n\<in>set (nodes sub). nonneg (node_tpm n)"
    and "cause_joint sub mechanism purview = Inr joint"
  shows "nonneg joint"
proof -
  from assms(2) obtain rs p where
    rs: "emap (\<lambda>m. single_node_cause_repertoire sub m purview) mechanism = Inr rs"
    and p: "reduce_multiply rs = Inr p"
    and joint: "multiply_inplace (ones (repertoire_shape purview (tpm_size sub))) p = Inr joint"
    by (auto simp: cause_joint_def ebind_eq_Inr)
  have "\<forall>x\<in>set rs. nonneg x"
    using emap_Inr_all[OF rs] assms(1) nonneg_single_node_cause_repertoire by blast
  then have "nonneg p" using p nonneg_reduce_multiply by blast
  then show ?thesis using joint nonneg_ones nonneg_multiply_inplace by blast
qed

lemma array_sum_normalize_nonzero: "array_sum a \<noteq> 0 \<Longrightarrow> array_sum (normalize a) = 1"
  by (simp add: normalize_def Let_def array_sum_divide_scalar)

lemma normalize_zero_sum: "array_sum a = 0 \<Longrightarrow> normalize a = a"
  by (simp add: normalize_def)

text \<open>
  Claim C4, as amended. For the empty purview the cause repertoire is the scalar 1. For a
  non-empty purview and the empty mechanism the returned array sums to 1. For a non-empty
  purview and a non-empty mechanism the returned array sums to 1 whenever the product of
  the single-node cause repertoires does not sum to zero; when that product sums to zero
  (the state is unreachable) it is returned as it is and is identically zero. The node TPMs
  hold probabilities, so their entries are taken to be non-negative.
\<close>

theorem cause_repertoire_normalized:
  assumes "\<forall>n\<in>set (nodes sub). nonneg (node_tpm n)"
  shows "cause_repertoire sub mechanism [] = Inr scalar_one
     \<and> (\<forall>purview r. purview \<noteq> [] \<and> cause_repertoire sub mechanism purview = Inr r
          \<longrightarrow> (if mechanism = [] then array_sum r = 1
               else \<exists>joint. cause_joint sub mechanism purview = Inr joint
                      \<and> (if array_sum joint = 0 then r = joint \<and> all_zero r
                          else array_sum r = 1)))"
proof (intro conjI allI impI)
  show "cause_repertoire sub mechanism [] = Inr scalar_one"
    by (simp add: cause_repertoire_def)
next
  fix purview r
  assume a: "purview \<noteq> [] \<and> cause_repertoire sub mechanism purview = Inr r"
  show "if mechanism = [] then array_sum r = 1
        else \<exists>joint. cause_joint sub mechanism purview = Inr joint
               \<and> (if array_sum joint = 0 then r = joint \<and> all_zero r else array_sum r = 1)"
  proof (cases "mechanism = []")
    case True
    with a show ?thesis by (auto simp: cause_repertoire_def array_sum_max_entropy)
  next
    case False
    from a False obtain joint where
      joint: "cause_joint sub mechanism purview = Inr joint" and r: "r = normalize joint"
      by (auto simp: cause_repertoire_joint ebind_eq_Inr)
    have nn: "nonneg joint" using assms joint by (rule nonneg_cause_joint)
    have "if array_sum joint = 0 then r = joint \<and> all_zero r else array_sum r = 1"
    proof (cases "array_sum joint = 0")
      case True
      then have "r = joint" using r by (simp add: normalize_zero_sum)
      moreover have "all_zero joint" using nn True by (rule all_zero_if_sum_zero)
      ultimately show ?thesis using True by simp
    next
      case False
      then show ?thesis using r by (simp add: array_sum_normalize_nonzero)
    qed
    with joint False show ?thesis by auto
  qed
qed

lemma nonneg_array_of: "\<forall>x\<in>set xs. 0 \<le> x \<Longrightarrow> nonneg (array_of s xs)"
  by (simp add: nonneg_def array_of_def)

lemma and_copy_nonneg: "\<forall>n\<in>set (nodes and_copy). nonneg (node_tpm n)"
  by (simp add: and_copy_def nonneg_array_of)

lemma reachable_rep: "\<not> isl (cause_repertoire and_copy [0] [0, 1])"
  by code_simp

lemma reachable_joint:
  "\<not> isl (cause_joint and_copy [0] [0, 1])"
  "array_sum (projr (cause_joint and_copy [0] [0, 1])) \<noteq> 0"
  by code_simp+

lemma unreachable_cause_rep: "\<not> isl (cause_repertoire and_copy [0, 1] [0, 1])"
  by code_simp

lemma unreachable_joint:
  "\<not> isl (cause_joint and_copy [0, 1] [0, 1])"
  "array_sum (projr (cause_joint and_copy [0, 1] [0, 1])) = 0"
  by code_simp+

theorem cause_repertoire_normalized_witness:
  "cause_repertoire and_copy [0] [] = Inr scalar_one
   \<and> array_sum (projr (cause_repertoire and_copy [0] [0, 1])) = 1
   \<and> array_sum (projr (cause_repertoire and_copy [] [0, 1])) = 1
   \<and> projr (cause_repertoire and_copy [0, 1] [0, 1]) = projr (cause_joint and_copy [0, 1] [0, 1])
   \<and> all_zero (projr (cause_repertoire and_copy [0, 1] [0, 1]))"
proof -
  have ne: "[0, 1] \<noteq> ([] :: nat list)" "[0] \<noteq> ([] :: nat list)" by simp_all
  obtain r where r: "cause_repertoire and_copy [0] [0, 1] = Inr r"
    using reachable_rep by (cases "cause_repertoire and_copy [0] [0, 1]") simp_all
  obtain j where j: "cause_joint and_copy [0] [0, 1] = Inr j"
    using reachable_joint(1) by (cases "cause_joint and_copy [0] [0, 1]") simp_all
  have jn: "array_sum j \<noteq> 0" using reachable_joint(2) unfolding j by simp
  obtain u where u: "cause_repertoire and_copy [] [0, 1] = Inr u"
    by (simp add: cause_repertoire_def)
  obtain r' where r': "cause_repertoire and_copy [0, 1] [0, 1] = Inr r'"
    using unreachable_cause_rep by (cases "cause_repertoire and_copy [0, 1] [0, 1]") simp_all
  obtain j' where j': "cause_joint and_copy [0, 1] [0, 1] = Inr j'"
    using unreachable_joint(1) by (cases "cause_joint and_copy [0, 1] [0, 1]") simp_all
  have jz: "array_sum j' = 0" using unreachable_joint(2) unfolding j' by simp
  have 1: "cause_repertoire and_copy [0] [] = Inr scalar_one"
    using cause_repertoire_normalized[OF and_copy_nonneg, of "[0]"] by blast
  have "[0, 1] \<noteq> ([] :: nat list) \<and> cause_repertoire and_copy [0] [0, 1] = Inr r"
    using r by simp
  with cause_repertoire_normalized[OF and_copy_nonneg, of "[0]"]
  have "if [0] = ([] :: nat list) then array_sum r = 1
        else \<exists>joint. cause_joint and_copy [0] [0, 1] = Inr joint
               \<and> (if array_sum joint = 0 then r = joint \<and> all_zero r else array_sum r = 1)"
    by blast
  then have 2: "array_sum r = 1" unfolding j using jn by simp
  have "[0, 1] \<noteq> ([] :: nat list) \<and> cause_repertoire and_copy [] [0, 1] = Inr u"
    using u by simp
  with cause_repertoire_normalized[OF and_copy_nonneg, of "[]"]
  have "if [] = ([] :: nat list) then array_sum u = 1
        else \<exists>joint. cause_joint and_copy [] [0, 1] = Inr joint
               \<and> (if array_sum joint = 0 then u = joint \<and> all_zero u else array_sum u = 1)"
    by blast
  then have 3: "array_sum u = 1" by simp
  have "[0, 1] \<noteq> ([] :: nat list) \<and> cause_repertoire and_copy [0, 1] [0, 1] = Inr r'"
    using r' by simp
  with cause_repertoire_normalized[OF and_copy_nonneg, of "[0, 1]"]
  have "if [0, 1] = ([] :: nat list) then array_sum r' = 1
        else \<exists>joint. cause_joint and_copy [0, 1] [0, 1] = Inr joint
               \<and> (if array_sum joint = 0 then r' = joint \<and> all_zero r' else array_sum r' = 1)"
    by blast
  then have 4: "r' = j' \<and> all_zero r'" unfolding j' using jz by auto
  from 1 2 3 4 show ?thesis unfolding r u r' j' by auto
qed

text \<open>
  Claim C4 as stated fails: in the unreachable state \<open>(1, 0)\<close> of the example network the
  cause repertoire of both nodes over both nodes is returned and sums to 0.
\<close>

theorem cause_repertoire_unreachable_sum:
  "\<not> isl (cause_repertoire and_copy [0, 1] [0, 1])
   \<and> array_sum (projr (cause_repertoire and_copy [0, 1] [0, 1])) = 0"
  by code_simp

lemma repertoire_shape_Suc:
  "repertoire_shape purview (Suc N) =
     repertoire_shape purview N @ [if N \<in> set purview then 2 else 1]"
  by (simp add: repertoire_shape_def)

lemma prod_list_repertoire_shape:
  "prod_list (repertoire_shape purview N) = 2 ^ card {k \<in> set purview. k < N}"
proof (induction N)
  case 0
  then show ?case by (simp add: repertoire_shape_def)
next
  case (Suc N)
  have fin: "finite {k \<in> set purview. k < N}" by simp
  have split: "{k \<in> set purview. k < Suc N} =
      (if N \<in> set purview then insert N {k \<in> set purview. k < N} else {k \<in> set purview. k < N})"
    by (auto simp: less_Suc_eq)
  have "N \<notin> {k \<in> set purview. k < N}" by simp
  then have "card {k \<in> set purview. k < Suc N} =
      (if N \<in> set purview then Suc (card {k \<in> set purview. k < N}) else card {k \<in> set purview. k < N})"
    using split fin by simp
  then show ?case using Suc.IH by (simp add: repertoire_shape_Suc)
qed

text \<open>
  Claim C5, as amended. For every non-empty purview (distinct node indices of the network)
  the cause repertoire of the empty mechanism over it is the uniform distribution: an
  array of length 2 on the purview axes and 1 elsewhere whose entries are all
  \<open>1 / 2 ^ |purview|\<close>.
\<close>

theorem cause_repertoire_empty_mechanism_uniform:
  assumes "purview \<noteq> []" and "distinct purview" and "\<forall>k\<in>set purview. k < tpm_size sub"
  shows "\<exists>r. cause_repertoire sub [] purview = Inr r
     \<and> shape r = map (\<lambda>i. if i \<in> set purview then 2 else 1) [0..<tpm_size sub]
     \<and> (\<forall>i. entry r i = 1 / 2 ^ length purview)"
proof -
  have "{k \<in> set purview. k < tpm_size sub} = set purview"
    using assms(3) by auto
  then have "card {k \<in> set purview. k < tpm_size sub} = length purview"
    using assms(2) by (simp add: distinct_card)
  then have "prod_list (repertoire_shape purview (tpm_size sub)) = 2 ^ length purview"
    by (simp add: prod_list_repertoire_shape)
  then show ?thesis
    using assms(1)
    by (simp add: cause_repertoire_def max_entropy_distribution_def Let_def
        divide_scalar_def ones_def repertoire_shape_def)
qed

theorem cause_repertoire_empty_mechanism_uniform_witness:
  "\<exists>r. cause_repertoire and_copy [] [0, 1] = Inr r \<and> shape r = [2, 2]
     \<and> (\<forall>i. entry r i = 1 / 4)"
proof -
  have h1: "[0, 1] \<noteq> ([] :: nat list)" by simp
  have h2: "distinct [0, 1 :: nat]" by simp
  have h3: "\<forall>k\<in>set [0, 1]. k < tpm_size and_copy" by (simp add: and_copy_def)
  have "map (\<lambda>i. if i \<in> set [0, 1] then 2 else 1) [0..<tpm_size and_copy] = [2, 2 :: nat]"
    by (simp add: and_copy_def upt_rec)
  with cause_repertoire_empty_mechanism_uniform[OF h1 h2 h3] show ?thesis
    by simp
qed

text \<open>
  Claim C5 as stated fails for the effect repertoire: in the example network the effect
  repertoire of the empty mechanism over node 0, the AND of two nodes, is
  \<open>(3/4, 1/4)\<close>, not the uniform \<open>(1/2, 1/2)\<close>.
\<close>

theorem effect_repertoire_empty_mechanism_not_uniform:
  "\<not> isl (effect_repertoire and_copy [] [0])
   \<and> map (entry (projr (effect_repertoire and_copy [] [0]))) [[0, 0], [1, 0]] = [3 / 4, 1 / 4]
   \<and> \<not> array_equal (projr (effect_repertoire and_copy [] [0])) (max_entropy_distribution [0] 2)"
  by code_simp

section \<open>Expanding a repertoire\<close>

text \<open>The nodes are binary: every axis of a repertoire has length 1 or 2.\<close>

definition binary_shape :: "nat list \<Rightarrow> bool" where
  "binary_shape s = list_all (\<lambda>d. d = 1 \<or> d = 2) s"

text \<open>
  A node as \<^verbatim>\<open>generate_nodes\<close> builds it for a subsystem with the node indices \<open>S\<close> of a
  network of \<open>N\<close> nodes. Its index and its inputs, read off the connectivity matrix of the
  network, are nodes of the network. Its TPM is cut from the TPM of the subsystem, in
  which the nodes outside the subsystem are conditioned on, and the nodes that are no
  inputs are marginalized out: the axis of a node has length 2 if the node is an input
  and belongs to the subsystem, and 1 otherwise; the last axis has length 2.
\<close>

definition wf_node :: "nat \<Rightarrow> nat list \<Rightarrow> node \<Rightarrow> bool" where
  "wf_node N S n =
     (node_index n < N \<and> list_all (\<lambda>k. k < N) (node_inputs n)
      \<and> shape (node_tpm n)
          = map (\<lambda>k. if k \<in> set (node_inputs n) \<and> k \<in> set S then 2 else 1) [0..<N] @ [2])"

definition wf_subsystem :: "subsystem \<Rightarrow> bool" where
  "wf_subsystem sub =
     list_all (\<lambda>i. case index2node sub i of
                     Inl e \<Rightarrow> False
                   | Inr n \<Rightarrow> wf_node (tpm_size sub) (node_indices sub) n)
       (node_indices sub)"

lemma broadcast_dims_binary:
  assumes "length s = length t" and "binary_shape s" and "binary_shape t"
  shows "\<exists>u. broadcast_dims s t = Some u \<and> binary_shape u"
  using assms
proof (induction s t rule: list_induct2)
  case Nil
  then show ?case by (simp add: binary_shape_def)
next
  case (Cons d ds e es)
  then obtain u where u: "broadcast_dims ds es = Some u" "binary_shape u"
    by (auto simp: binary_shape_def)
  from Cons.prems have "d = 1 \<or> d = 2" "e = 1 \<or> e = 2" by (auto simp: binary_shape_def)
  then obtain x where "broadcast_dim d e = Some x" "x = 1 \<or> x = 2"
    by (auto simp: broadcast_dim_def)
  with u show ?case by (auto simp: binary_shape_def)
qed

lemma binary_pad_shape: "binary_shape s \<Longrightarrow> binary_shape (pad_shape n s)"
  by (auto simp: binary_shape_def pad_shape_def list_all_iff)

lemma length_pad_shape: "length s \<le> n \<Longrightarrow> length (pad_shape n s) = n"
  by (simp add: pad_shape_def)

lemma multiply_binary:
  assumes "binary_shape (shape a)" and "binary_shape (shape b)"
  shows "\<exists>c. multiply a b = Inr c \<and> binary_shape (shape c)"
proof -
  let ?n = "max (length (shape a)) (length (shape b))"
  have "length (pad_shape ?n (shape a)) = length (pad_shape ?n (shape b))"
    by (simp add: length_pad_shape)
  from broadcast_dims_binary[OF this binary_pad_shape[OF assms(1)] binary_pad_shape[OF assms(2)]]
  obtain u where "broadcast_shapes (shape a) (shape b) = Some u" "binary_shape u"
    by (auto simp: broadcast_shapes_def Let_def)
  then show ?thesis by (simp add: multiply_def)
qed

lemma multiply_from_binary:
  assumes "binary_shape (shape a)" and "\<forall>x\<in>set xs. binary_shape (shape x)"
  shows "\<exists>c. multiply_from a xs = Inr c \<and> binary_shape (shape c)"
  using assms
proof (induction xs arbitrary: a)
  case Nil
  then show ?case by simp
next
  case (Cons x xs)
  from multiply_binary[of a x] Cons.prems obtain c where
    c: "multiply a x = Inr c" "binary_shape (shape c)" by auto
  from Cons.IH[OF c(2)] Cons.prems(2) c(1) show ?case by auto
qed

lemma reduce_multiply_binary:
  assumes "xs \<noteq> []" and "\<forall>x\<in>set xs. binary_shape (shape x)"
  shows "\<exists>c. reduce_multiply xs = Inr c \<and> binary_shape (shape c)"
  using assms by (cases xs) (auto intro: multiply_from_binary)

lemma binary_repertoire_shape: "binary_shape (repertoire_shape P N)"
  by (auto simp: binary_shape_def repertoire_shape_def list_all_iff)

lemma emap_all_Inr:
  assumes "\<forall>x\<in>set xs. \<exists>y. f x = Inr y \<and> P y"
  shows "\<exists>ys. emap f xs = Inr ys \<and> (\<forall>y\<in>set ys. P y) \<and> length ys = length xs"
  using assms
proof (induction xs)
  case Nil
  then show ?case by simp
next
  case (Cons x xs)
  then obtain y ys where "f x = Inr y" "P y" "emap f xs = Inr ys" "\<forall>y\<in>set ys. P y"
    "length ys = length xs"
    by auto
  then show ?case by auto
qed

lemma shape_fold_marginalize:
  "shape (fold marginalize_axis ks a) = fold (\<lambda>k s. s[k := 1]) ks (shape a)"
  by (induction ks arbitrary: a) (simp_all add: marginalize_axis_def)

lemma length_fold_update [simp]: "length (fold (\<lambda>k s. s[k := v]) ks s) = length s"
  by (induction ks arbitrary: s) simp_all

lemma nth_fold_update:
  "j < length s \<Longrightarrow> fold (\<lambda>k s. s[k := v]) ks s ! j = (if j \<in> set ks then v else s ! j)"
proof (induction ks arbitrary: s)
  case Nil
  then show ?case by simp
next
  case (Cons k ks)
  then show ?case by (simp add: nth_list_update)
qed

lemma marginalized_tpm_shape:
  assumes "wf_node N S n"
  shows "fold (\<lambda>k s. s[k := 1]) (remdups (node_inputs n)) (shape (node_tpm n)) = replicate N 1 @ [2]"
proof (rule nth_equalityI)
  show "length (fold (\<lambda>k s. s[k := 1]) (remdups (node_inputs n)) (shape (node_tpm n)))
      = length (replicate N 1 @ [2::nat])"
    using assms by (simp add: wf_node_def)
next
  fix j
  assume "j < length (fold (\<lambda>k s. s[k := 1]) (remdups (node_inputs n)) (shape (node_tpm n)))"
  then have j: "j < Suc N" using assms by (simp add: wf_node_def)
  have inp: "\<forall>k\<in>set (node_inputs n). k < N"
    using assms by (simp add: wf_node_def list_all_iff)
  have sh: "shape (node_tpm n)
      = map (\<lambda>k. if k \<in> set (node_inputs n) \<and> k \<in> set S then 2 else 1) [0..<N] @ [2]"
    using assms by (simp add: wf_node_def)
  show "fold (\<lambda>k s. s[k := 1]) (remdups (node_inputs n)) (shape (node_tpm n)) ! j
      = (replicate N 1 @ [2]) ! j"
  proof (cases "j < N")
    case True
    then show ?thesis using sh by (simp add: nth_fold_update nth_append)
  next
    case False
    with j have "j = N" by simp
    moreover have "N \<notin> set (node_inputs n)" using inp by auto
    ultimately show ?thesis using sh by (simp add: nth_fold_update nth_append)
  qed
qed

lemma prod_list_single_shape: "p < N \<Longrightarrow> prod_list (repertoire_shape [p] N) = 2"
proof -
  assume "p < N"
  then have "{k \<in> set [p]. k < N} = {p}" by auto
  then show ?thesis by (simp add: prod_list_repertoire_shape)
qed

lemma single_node_effect_repertoire_empty:
  assumes "index2node sub p = Inr n" and "wf_node (tpm_size sub) S n"
  shows "\<exists>r. single_node_effect_repertoire sub [] p = Inr r \<and> binary_shape (shape r)"
proof -
  let ?N = "tpm_size sub"
  have c: "condition_tpm (node_tpm n) [] (state sub) = Inr (node_tpm n)"
    by (simp add: condition_tpm_def)
  have "list_all (\<lambda>k. k < length (shape (node_tpm n))) (node_inputs n)"
    using assms(2) by (auto simp: wf_node_def list_all_iff)
  then have m: "marginalize_out (node_inputs n) (node_tpm n)
      = Inr (fold marginalize_axis (remdups (node_inputs n)) (node_tpm n))"
    by (simp add: marginalize_out_def)
  have "shape (fold marginalize_axis (remdups (node_inputs n)) (node_tpm n))
      = replicate ?N 1 @ [2]"
    unfolding shape_fold_marginalize by (rule marginalized_tpm_shape[OF assms(2)])
  then have "prod_list (shape (fold marginalize_axis (remdups (node_inputs n)) (node_tpm n))) = 2"
    by simp
  moreover have "prod_list (repertoire_shape [node_index n] ?N) = 2"
    using assms(2) by (simp add: prod_list_single_shape wf_node_def)
  ultimately obtain r where
    "reshape (fold marginalize_axis (remdups (node_inputs n)) (node_tpm n))
       (repertoire_shape [node_index n] ?N) = Inr r"
    "shape r = repertoire_shape [node_index n] ?N"
    by (simp add: reshape_def)
  then show ?thesis
    using assms(1) c m by (simp add: single_node_effect_repertoire_def binary_repertoire_shape)
qed

lemma unconstrained_repertoire_binary:
  assumes "d = EFFECT \<Longrightarrow> wf_subsystem sub"
    and "d = EFFECT \<Longrightarrow> set P \<subseteq> set (node_indices sub)"
  shows "\<exists>uc. unconstrained_repertoire sub d P = Inr uc \<and> binary_shape (shape uc)"
proof (cases "P = []")
  case True
  then show ?thesis
    by (cases d)
      (simp_all add: unconstrained_repertoire_def repertoire_def cause_repertoire_def
        effect_repertoire_def scalar_one_def binary_shape_def)
next
  case False
  show ?thesis
  proof (cases d)
    case CAUSE
    with False show ?thesis
      by (simp add: unconstrained_repertoire_def repertoire_def cause_repertoire_def
          max_entropy_distribution_def Let_def divide_scalar_def ones_def
          binary_repertoire_shape)
  next
    case EFFECT
    have "\<forall>p\<in>set P. \<exists>r. single_node_effect_repertoire sub [] p = Inr r \<and> binary_shape (shape r)"
    proof
      fix p
      assume "p \<in> set P"
      with assms EFFECT have "case index2node sub p of
            Inl e \<Rightarrow> False
          | Inr n \<Rightarrow> wf_node (tpm_size sub) (node_indices sub) n"
        by (auto simp: wf_subsystem_def list_all_iff)
      then obtain n where "index2node sub p = Inr n"
        "wf_node (tpm_size sub) (node_indices sub) n"
        by (auto split: sum.splits)
      then show "\<exists>r. single_node_effect_repertoire sub [] p = Inr r \<and> binary_shape (shape r)"
        by (rule single_node_effect_repertoire_empty)
    qed
    from emap_all_Inr[OF this] obtain rs where
      rs: "emap (single_node_effect_repertoire sub []) P = Inr rs"
        "\<forall>y\<in>set rs. binary_shape (shape y)" "length rs = length P"
      by blast
    with False have "rs \<noteq> []" by auto
    from reduce_multiply_binary[OF this rs(2)] obtain c where
      c: "reduce_multiply rs = Inr c" "binary_shape (shape c)" by blast
    have "binary_shape (shape (ones (repertoire_shape P (tpm_size sub))))"
      by (simp add: ones_def binary_repertoire_shape)
    from multiply_binary[OF this c(2)] obtain uc where
      "multiply (ones (repertoire_shape P (tpm_size sub))) c = Inr uc" "binary_shape (shape uc)"
      by blast
    with rs(1) c(1) False EFFECT show ?thesis
      by (simp add: unconstrained_repertoire_def repertoire_def effect_repertoire_def
          effect_repertoire_virtualized_def)
  qed
qed

text \<open>
  Claim C10, as amended. \<^verbatim>\<open>expand_repertoire\<close> returns \<^verbatim>\<open>None\<close> for the repertoire
  \<^verbatim>\<open>None\<close>. For a repertoire, an array whose axes have length 1 or 2, it raises
  \<^verbatim>\<open>ValueError\<close> if and only if the purview read off the repertoire's shape is not a subset
  of the new purview (by default all nodes of the subsystem), and otherwise it returns the
  repertoire multiplied by the unconstrained repertoire over the missing nodes,
  normalized: in the cause direction for every new purview, in the effect direction for
  every new purview within a subsystem whose nodes are as \<^verbatim>\<open>generate_nodes\<close> builds them.
\<close>

theorem expand_repertoire_cases:
  assumes "binary_shape (shape r)"
    and "d = EFFECT \<Longrightarrow> wf_subsystem sub"
    and "d = EFFECT \<Longrightarrow>
           set (case new_purview of None \<Rightarrow> node_indices sub | Some p \<Rightarrow> p)
             \<subseteq> set (node_indices sub)"
  shows "expand_repertoire sub d None new_purview = Inr None
     \<and> (expand_repertoire sub d (Some r) new_purview = Inl ValueError
          \<longleftrightarrow> \<not> set (purview_of r)
                 \<subseteq> set (case new_purview of None \<Rightarrow> node_indices sub | Some p \<Rightarrow> p))
     \<and> (set (purview_of r) \<subseteq> set (case new_purview of None \<Rightarrow> node_indices sub | Some p \<Rightarrow> p)
          \<longrightarrow> (\<exists>uc e.
                 unconstrained_repertoire sub d
                   (remdups (filter (\<lambda>i. i \<notin> set (purview_of r))
                      (case new_purview of None \<Rightarrow> node_indices sub | Some p \<Rightarrow> p))) = Inr uc
                 \<and> multiply r uc = Inr e
                 \<and> expand_repertoire sub d (Some r) new_purview = Inr (Some (normalize e))))"
proof -
  let ?np = "case new_purview of None \<Rightarrow> node_indices sub | Some p \<Rightarrow> p"
  let ?missing = "remdups (filter (\<lambda>i. i \<notin> set (purview_of r)) ?np)"
  have "set ?missing \<subseteq> set (node_indices sub)" if "d = EFFECT"
    using assms(3)[OF that] by auto
  from unconstrained_repertoire_binary[OF assms(2) this] obtain uc where
    uc: "unconstrained_repertoire sub d ?missing = Inr uc" "binary_shape (shape uc)"
    by blast
  from multiply_binary[OF assms(1) uc(2)] obtain e where e: "multiply r uc = Inr e"
    by blast
  have none: "expand_repertoire sub d None new_purview = Inr None"
    by (simp add: expand_repertoire_def)
  have ok: "expand_repertoire sub d (Some r) new_purview = Inr (Some (normalize e))"
    if "set (purview_of r) \<subseteq> set ?np"
    using that uc(1) e by (simp add: expand_repertoire_def Let_def)
  have bad: "expand_repertoire sub d (Some r) new_purview = Inl ValueError"
    if "\<not> set (purview_of r) \<subseteq> set ?np"
    using that by (simp add: expand_repertoire_def Let_def)
  show ?thesis
    using none ok bad uc(1) e by auto
qed

text \<open>
  Node 0 of the example network as a subsystem of its own, in the network state
  \<open>(1, 1)\<close>: node 1, an input of node 0, is outside the subsystem, so its axis in the TPM of
  node 0 has length 1.
\<close>

definition and_alone :: subsystem where
  "and_alone =
     \<lparr>network = 0, node_indices = [0], state = [1, 1], cut = NullCut [0], tpm_size = 2,
      nodes = [\<lparr>node_index = 0, node_state = 1, node_inputs = [0, 1],
                 node_tpm = array_of [2, 1, 2] [1, 0, 0, 1]\<rparr>]\<rparr>"

lemma wf_and_copy: "wf_subsystem and_copy"
  by code_simp

lemma wf_and_alone: "wf_subsystem and_alone"
  by code_simp

theorem expand_repertoire_cases_witness:
  "expand_repertoire and_copy EFFECT None None = Inr None
   \<and> expand_repertoire and_copy EFFECT (Some (array_of [1, 2] [1 / 2, 1 / 2])) (Some [0])
       = Inl ValueError
   \<and> (\<exists>uc e. unconstrained_repertoire and_copy EFFECT [1] = Inr uc
         \<and> multiply (array_of [2, 1] [1 / 4, 3 / 4]) uc = Inr e
         \<and> expand_repertoire and_copy EFFECT (Some (array_of [2, 1] [1 / 4, 3 / 4])) None
             = Inr (Some (normalize e)))
   \<and> (\<exists>uc e. unconstrained_repertoire and_alone EFFECT [0] = Inr uc
         \<and> multiply (array_of [1, 1] [1]) uc = Inr e
         \<and> expand_repertoire and_alone EFFECT (Some (array_of [1, 1] [1])) None
             = Inr (Some (normalize e)))
   \<and> (\<exists>uc e. unconstrained_repertoire and_alone CAUSE [1] = Inr uc
         \<and> multiply (array_of [2, 1] [1 / 2, 1 / 2]) uc = Inr e
         \<and> expand_repertoire and_alone CAUSE (Some (array_of [2, 1] [1 / 2, 1 / 2]))
               (Some [0, 1])
             = Inr (Some (normalize e)))"
proof -
  have sub: "set (case None of None \<Rightarrow> node_indices and_copy | Some p \<Rightarrow> p)
      \<subseteq> set (node_indices and_copy)"
    by simp
  have sub': "set (case Some [0] of None \<Rightarrow> node_indices and_copy | Some p \<Rightarrow> p)
      \<subseteq> set (node_indices and_copy)"
    by (simp add: and_copy_def)
  have sub'': "set (case None of None \<Rightarrow> node_indices and_alone | Some p \<Rightarrow> p)
      \<subseteq> set (node_indices and_alone)"
    by simp
  have b1: "binary_shape (shape (array_of [1, 2] [1 / 2, 1 / 2]))"
    by (simp add: binary_shape_def array_of_def)
  have b2: "binary_shape (shape (array_of [2, 1] [1 / 4, 3 / 4]))"
    by (simp add: binary_shape_def array_of_def)
  have b3: "binary_shape (shape (array_of [1, 1] [1]))"
    by (simp add: binary_shape_def array_of_def)
  have b4: "binary_shape (shape (array_of [2, 1] [1 / 2, 1 / 2]))"
    by (simp add: binary_shape_def array_of_def)
  have p1: "purview_of (array_of [1, 2] [1 / 2, 1 / 2]) = [1]"
    by code_simp
  have p2: "purview_of (array_of [2, 1] [1 / 4, 3 / 4]) = [0]"
    by code_simp
  have p3: "purview_of (array_of [1, 1] [1]) = []"
    by code_simp
  have p4: "purview_of (array_of [2, 1] [1 / 2, 1 / 2]) = [0]"
    by code_simp
  have ni: "node_indices and_copy = [0, 1]" by (simp add: and_copy_def)
  have ni': "node_indices and_alone = [0]" by (simp add: and_alone_def)
  have ns: "\<not> set (purview_of (array_of [1, 2] [1 / 2, 1 / 2]))
      \<subseteq> set (case Some [0] of None \<Rightarrow> node_indices and_copy | Some p \<Rightarrow> p)"
    unfolding p1 by simp
  from expand_repertoire_cases[OF b1 wf_and_copy sub', of EFFECT] ns
  have 1: "expand_repertoire and_copy EFFECT (Some (array_of [1, 2] [1 / 2, 1 / 2])) (Some [0])
       = Inl ValueError"
    by blast
  have ss: "set (purview_of (array_of [2, 1] [1 / 4, 3 / 4]))
      \<subseteq> set (case None of None \<Rightarrow> node_indices and_copy | Some p \<Rightarrow> p)"
    unfolding p2 ni by simp
  have missing: "remdups (filter (\<lambda>i. i \<notin> set (purview_of (array_of [2, 1] [1 / 4, 3 / 4])))
      (case None of None \<Rightarrow> node_indices and_copy | Some p \<Rightarrow> p)) = [1]"
    unfolding p2 ni by simp
  from expand_repertoire_cases[OF b2 wf_and_copy sub, of EFFECT] ss
  have 2: "expand_repertoire and_copy EFFECT None None = Inr None"
    and 3: "\<exists>uc e. unconstrained_repertoire and_copy EFFECT [1] = Inr uc
         \<and> multiply (array_of [2, 1] [1 / 4, 3 / 4]) uc = Inr e
         \<and> expand_repertoire and_copy EFFECT (Some (array_of [2, 1] [1 / 4, 3 / 4])) None
             = Inr (Some (normalize e))"
    unfolding missing by blast+
  have ss': "set (purview_of (array_of [1, 1] [1]))
      \<subseteq> set (case None of None \<Rightarrow> node_indices and_alone | Some p \<Rightarrow> p)"
    unfolding p3 by simp
  have missing': "remdups (filter (\<lambda>i. i \<notin> set (purview_of (array_of [1, 1] [1])))
      (case None of None \<Rightarrow> node_indices and_alone | Some p \<Rightarrow> p)) = [0]"
    unfolding p3 ni' by simp
  from expand_repertoire_cases[OF b3 wf_and_alone sub'', of EFFECT] ss'
  have 4: "\<exists>uc e. unconstrained_repertoire and_alone EFFECT [0] = Inr uc
         \<and> multiply (array_of [1, 1] [1]) uc = Inr e
         \<and> expand_repertoire and_alone EFFECT (Some (array_of [1, 1] [1])) None
             = Inr (Some (normalize e))"
    unfolding missing' by blast
  have ce: "CAUSE = EFFECT \<Longrightarrow> wf_subsystem and_alone" by simp
  have ce': "CAUSE = EFFECT \<Longrightarrow>
      set (case Some [0, 1] of None \<Rightarrow> node_indices and_alone | Some p \<Rightarrow> p)
        \<subseteq> set (node_indices and_alone)"
    by simp
  have ss'': "set (purview_of (array_of [2, 1] [1 / 2, 1 / 2]))
      \<subseteq> set (case Some [0, 1] of None \<Rightarrow> node_indices and_alone | Some p \<Rightarrow> p)"
    unfolding p4 by simp
  have missing'': "remdups (filter (\<lambda>i. i \<notin> set (purview_of (array_of [2, 1] [1 / 2, 1 / 2])))
      (case Some [0, 1] of None \<Rightarrow> node_indices and_alone | Some p \<Rightarrow> p)) = [1]"
    unfolding p4 by simp
  from expand_repertoire_cases[OF b4 ce ce'] ss''
  have 5: "\<exists>uc e. unconstrained_repertoire and_alone CAUSE [1] = Inr uc
         \<and> multiply (array_of [2, 1] [1 / 2, 1 / 2]) uc = Inr e
         \<and> expand_repertoire and_alone CAUSE (Some (array_of [2, 1] [1 / 2, 1 / 2]))
               (Some [0, 1])
             = Inr (Some (normalize e))"
    unfolding missing'' by blast
  from 1 2 3 4 5 show ?thesis by blast
qed

text \<open>
  Claim C10 as stated fails in the effect direction for a new purview with a node outside
  the subsystem: the purview \<open>(0)\<close> of the repertoire is a subset of the new purview
  \<open>(0, 1)\<close>, so the claim has the expanded repertoire returned, but the unconstrained
  effect repertoire over the missing node 1 looks that node up among the nodes of the
  subsystem and raises \<^verbatim>\<open>KeyError\<close>.
\<close>

theorem expand_repertoire_outside_subsystem:
  "set (purview_of (array_of [2, 1] [1 / 2, 1 / 2])) \<subseteq> set [0, 1]
   \<and> isl (expand_repertoire and_alone EFFECT (Some (array_of [2, 1] [1 / 2, 1 / 2]))
           (Some [0, 1]))
   \<and> projl (expand_repertoire and_alone EFFECT (Some (array_of [2, 1] [1 / 2, 1 / 2]))
           (Some [0, 1])) = KeyError"
  by code_simp

text \<open>
  An array with an axis of another length is no repertoire of binary nodes. For such an
  array the multiplication can fail to broadcast, which NumPy reports as \<^verbatim>\<open>ValueError\<close>,
  although the purview read off the array is a subset of the new purview.
\<close>

lemma expand_repertoire_other_shape:
  "set (purview_of (array_of [3, 1] [1 / 3, 1 / 3, 1 / 3])) \<subseteq> set (node_indices and_copy)
   \<and> isl (expand_repertoire and_copy CAUSE (Some (array_of [3, 1] [1 / 3, 1 / 3, 1 / 3])) None)
   \<and> projl (expand_repertoire and_copy CAUSE (Some (array_of [3, 1] [1 / 3, 1 / 3, 1 / 3])) None)
       = ValueError"
  by code_simp

section \<open>Concepts and constellations\<close>

text \<open>
  The \<^verbatim>\<open>Subsystem\<close> class that \<^verbatim>\<open>cyphi/compute.py\<close> works on is not among the sources. The
  record holds what \<^verbatim>\<open>compute.py\<close> reads of it: the nodes (by index), the connectivity
  matrix of the network, the null cut, the null concept, the maximally irreducible cause
  and effect of a mechanism under a cut, and the two connectivity tests.
\<close>

record candidate_system =
  cs_nodes :: "nat list"
  cs_connectivity_matrix :: "nat list list"
  cs_null_cut :: cut
  cs_null_concept :: concept
  cs_core_cause :: "nat list \<Rightarrow> cut \<Rightarrow> mice"
  cs_core_effect :: "nat list \<Rightarrow> cut \<Rightarrow> mice"
  cs_all_connect_to_any :: "nat list \<Rightarrow> nat list \<Rightarrow> bool"
  cs_any_connect_to_all :: "nat list \<Rightarrow> nat list \<Rightarrow> bool"

text \<open>
  The two caches of \<^verbatim>\<open>concept\<close>: the database \<^verbatim>\<open>db\<close>, which returns \<^verbatim>\<open>None\<close> for a key it
  does not hold, and the memory of the decorator \<^verbatim>\<open>memory.cache\<close> on \<^verbatim>\<open>_concept\<close>, which
  remembers the result (a concept or \<^verbatim>\<open>None\<close>) computed for a key.
\<close>

record 'k caches =
  db :: "'k \<Rightarrow> concept option"
  memory :: "'k \<Rightarrow> concept option option"

text \<open>
  The body of \<^verbatim>\<open>_concept\<close>; \<open>eps\<close> is \<^verbatim>\<open>options.EPSILON\<close>.
\<close>

definition concept_body :: "real \<Rightarrow> candidate_system \<Rightarrow> nat list \<Rightarrow> cut \<Rightarrow> concept option" where
  "concept_body eps sub mechanism c =
     (let cause = cs_core_cause sub mechanism c;
          effect = cs_core_effect sub mechanism c;
          phi = min (mice_phi cause) (mice_phi effect)
      in if phi < eps then None
         else Some \<lparr>concept_mechanism = mechanism, concept_phi = phi,
                    concept_cause = cause, concept_effect = effect\<rparr>)"

text \<open>
  \<^verbatim>\<open>_concept\<close> under \<^verbatim>\<open>memory.cache(ignore=['subsystem', 'mechanism', 'cut'])\<close>: the result
  is remembered under the normalized MarblSet alone. \<open>marblset\<close> gives the key of a
  mechanism under a cut (the class \<^verbatim>\<open>MarblSet\<close> is not among the sources).
\<close>

definition memoized_concept ::
  "real \<Rightarrow> (nat list \<Rightarrow> cut \<Rightarrow> 'k) \<Rightarrow> candidate_system \<Rightarrow> nat list \<Rightarrow> cut \<Rightarrow> 'k caches
     \<Rightarrow> concept option \<times> 'k caches" where
  "memoized_concept eps marblset sub mechanism c st =
     (case memory st (marblset mechanism c) of
        Some r \<Rightarrow> (r, st)
      | None \<Rightarrow>
          (let r = concept_body eps sub mechanism c
           in (r, st\<lparr>memory := (memory st)(marblset mechanism c := Some r)\<rparr>)))"

text \<open>
  \<^verbatim>\<open>concept\<close>. \<open>raw_key\<close> is \<^verbatim>\<open>db.generate_key\<close> of the MarblSet that is not normalized. A
  cached concept counts as true in \<^verbatim>\<open>if cached_value\<close>; a cached \<^verbatim>\<open>None\<close> does not.
\<close>

definition concept_of ::
  "real \<Rightarrow> (nat list \<Rightarrow> cut \<Rightarrow> 'k) \<Rightarrow> (nat list \<Rightarrow> cut \<Rightarrow> 'k) \<Rightarrow> candidate_system \<Rightarrow> nat list
     \<Rightarrow> cut option \<Rightarrow> 'k caches \<Rightarrow> concept option \<times> 'k caches" where
  "concept_of eps raw_key marblset sub mechanism c st =
     (if mechanism = [] then (None, st)
      else if \<not> (cs_all_connect_to_any sub mechanism (cs_nodes sub)
                 \<and> cs_any_connect_to_all sub (cs_nodes sub) mechanism) then (None, st)
      else
        (let c' = (case c of None \<Rightarrow> cs_null_cut sub | Some x \<Rightarrow> x)
         in case db st (raw_key mechanism c') of
              Some cached_value \<Rightarrow> (Some cached_value, st)
            | None \<Rightarrow>
                (let (r, st') = memoized_concept eps marblset sub mechanism c' st
                 in (r, st'\<lparr>db := (db st')(raw_key mechanism c' := r)\<rparr>))))"

text \<open>\<^verbatim>\<open>itertools.combinations\<close> and the \<^verbatim>\<open>powerset\<close> of \<^verbatim>\<open>cyphi/utils.py\<close>.\<close>

fun combinations :: "'a list \<Rightarrow> nat \<Rightarrow> 'a list list" where
  "combinations xs 0 = [[]]"
| "combinations [] (Suc r) = []"
| "combinations (x # xs) (Suc r) = map ((#) x) (combinations xs r) @ combinations xs (Suc r)"

definition powerset :: "'a list \<Rightarrow> 'a list list" where
  "powerset s = concat (map (combinations s) [0..<length s + 1])"

text \<open>The list comprehension of \<^verbatim>\<open>constellation\<close>, the caches passed from call to call.\<close>

fun concepts_of ::
  "('a \<Rightarrow> 's \<Rightarrow> 'b \<times> 's) \<Rightarrow> 'a list \<Rightarrow> 's \<Rightarrow> 'b list \<times> 's" where
  "concepts_of f [] st = ([], st)"
| "concepts_of f (m # ms) st =
     (let (r, st1) = f m st; (rs, st2) = concepts_of f ms st1 in (r # rs, st2))"

definition constellation ::
  "real \<Rightarrow> (nat list \<Rightarrow> cut \<Rightarrow> 'k) \<Rightarrow> (nat list \<Rightarrow> cut \<Rightarrow> 'k) \<Rightarrow> candidate_system \<Rightarrow> cut option
     \<Rightarrow> 'k caches \<Rightarrow> concept list \<times> 'k caches" where
  "constellation eps raw_key marblset sub c st =
     (let (concepts, st') =
            concepts_of (\<lambda>mechanism. concept_of eps raw_key marblset sub mechanism c)
              (powerset (cs_nodes sub)) st
      in (concat (map (\<lambda>r. case r of None \<Rightarrow> [] | Some x \<Rightarrow> [x]) concepts), st'))"

subsection \<open>What the caches hold\<close>

text \<open>
  The caches are filled by \<^verbatim>\<open>concept\<close> alone. \<open>caches_filtered\<close>: every concept they hold has
  a non-empty mechanism and \<open>\<phi>\<close> at least \<open>eps\<close>. \<open>caches_exact\<close>: under the keys of the
  mechanisms of this subsystem they hold what \<^verbatim>\<open>_concept\<close> computes for the mechanism.
  \<open>keys_faithful\<close>: mechanisms with equal keys have equal concepts (section 3, the caching
  invariant).
\<close>

definition filtered :: "real \<Rightarrow> concept \<Rightarrow> bool" where
  "filtered eps x = (concept_mechanism x \<noteq> [] \<and> eps \<le> concept_phi x)"

definition caches_filtered :: "real \<Rightarrow> 'k caches \<Rightarrow> bool" where
  "caches_filtered eps st =
     ((\<forall>k x. db st k = Some x \<longrightarrow> filtered eps x)
      \<and> (\<forall>k x. memory st k = Some (Some x) \<longrightarrow> filtered eps x))"

definition caches_exact ::
  "real \<Rightarrow> (nat list \<Rightarrow> cut \<Rightarrow> 'k) \<Rightarrow> (nat list \<Rightarrow> cut \<Rightarrow> 'k) \<Rightarrow> candidate_system \<Rightarrow> cut
     \<Rightarrow> 'k caches \<Rightarrow> bool" where
  "caches_exact eps raw_key marblset sub c st =
     ((\<forall>m x. db st (raw_key m c) = Some x \<longrightarrow> concept_body eps sub m c = Some x)
      \<and> (\<forall>m r. memory st (marblset m c) = Some r \<longrightarrow> concept_body eps sub m c = r))"

definition keys_faithful ::
  "real \<Rightarrow> (nat list \<Rightarrow> cut \<Rightarrow> 'k) \<Rightarrow> (nat list \<Rightarrow> cut \<Rightarrow> 'k) \<Rightarrow> candidate_system \<Rightarrow> cut \<Rightarrow> bool" where
  "keys_faithful eps raw_key marblset sub c =
     (\<forall>m m'. (raw_key m c = raw_key m' c \<or> marblset m c = marblset m' c)
        \<longrightarrow> concept_body eps sub m c = concept_body eps sub m' c)"

definition effective_cut :: "candidate_system \<Rightarrow> cut option \<Rightarrow> cut" where
  "effective_cut sub c = (case c of None \<Rightarrow> cs_null_cut sub | Some x \<Rightarrow> x)"

lemma concept_body_filtered:
  "concept_body eps sub m c = Some x \<Longrightarrow> m \<noteq> [] \<Longrightarrow> filtered eps x"
  by (auto simp: concept_body_def Let_def filtered_def split: if_splits)

lemma concept_body_min:
  "concept_body eps sub m c = Some x \<Longrightarrow>
     concept_mechanism x = m
     \<and> eps \<le> min (mice_phi (cs_core_cause sub m c)) (mice_phi (cs_core_effect sub m c))"
  by (auto simp: concept_body_def Let_def split: if_splits)

lemma memoized_concept_filtered:
  assumes "caches_filtered eps st" and "m \<noteq> []"
    and "memoized_concept eps marblset sub m c st = (r, st')"
  shows "caches_filtered eps st' \<and> (\<forall>x. r = Some x \<longrightarrow> filtered eps x)"
proof (cases "memory st (marblset m c)")
  case None
  with assms(3) have r: "r = concept_body eps sub m c"
    and st': "st' = st\<lparr>memory := (memory st)(marblset m c := Some r)\<rparr>"
    by (auto simp: memoized_concept_def Let_def)
  have rf: "\<forall>x. r = Some x \<longrightarrow> filtered eps x"
    using r assms(2) concept_body_filtered by auto
  then show ?thesis using assms(1) st' by (auto simp: caches_filtered_def)
next
  case (Some v)
  with assms(3) have "r = v" "st' = st" by (auto simp: memoized_concept_def)
  with Some assms(1) show ?thesis by (auto simp: caches_filtered_def)
qed

lemma concept_of_filtered:
  assumes "caches_filtered eps st"
    and "concept_of eps raw_key marblset sub m c st = (r, st')"
  shows "caches_filtered eps st' \<and> (\<forall>x. r = Some x \<longrightarrow> filtered eps x)"
proof (cases "m = [] \<or> \<not> (cs_all_connect_to_any sub m (cs_nodes sub)
                 \<and> cs_any_connect_to_all sub (cs_nodes sub) m)")
  case True
  with assms(2) have "r = None" "st' = st" by (auto simp: concept_of_def split: if_splits)
  with assms(1) show ?thesis by simp
next
  case False
  let ?c = "case c of None \<Rightarrow> cs_null_cut sub | Some x \<Rightarrow> x"
  show ?thesis
  proof (cases "db st (raw_key m ?c)")
    case (Some v)
    with False assms(2) have "r = Some v" "st' = st" by (auto simp: concept_of_def Let_def)
    with Some assms(1) show ?thesis by (auto simp: caches_filtered_def)
  next
    case None
    obtain r1 st1 where m1: "memoized_concept eps marblset sub m ?c st = (r1, st1)"
      by (cases "memoized_concept eps marblset sub m ?c st") auto
    with None False assms(2) have r: "r = r1"
      and st': "st' = st1\<lparr>db := (db st1)(raw_key m ?c := r1)\<rparr>"
      by (auto simp: concept_of_def Let_def)
    from False have "m \<noteq> []" by simp
    from memoized_concept_filtered[OF assms(1) this m1]
    have "caches_filtered eps st1" "\<forall>x. r1 = Some x \<longrightarrow> filtered eps x" by simp_all
    then show ?thesis using r st' by (auto simp: caches_filtered_def)
  qed
qed

lemma concepts_of_filtered:
  assumes "caches_filtered eps st"
    and "concepts_of (\<lambda>m. concept_of eps raw_key marblset sub m c) ms st = (rs, st')"
  shows "caches_filtered eps st' \<and> (\<forall>x. Some x \<in> set rs \<longrightarrow> filtered eps x)"
  using assms
proof (induction ms arbitrary: st rs st')
  case Nil
  then show ?case by simp
next
  case (Cons m ms)
  obtain r st1 where 1: "concept_of eps raw_key marblset sub m c st = (r, st1)"
    by (cases "concept_of eps raw_key marblset sub m c st") auto
  obtain rs' st2 where 2:
    "concepts_of (\<lambda>m. concept_of eps raw_key marblset sub m c) ms st1 = (rs', st2)"
    by (cases "concepts_of (\<lambda>m. concept_of eps raw_key marblset sub m c) ms st1") auto
  have "concepts_of (\<lambda>m. concept_of eps raw_key marblset sub m c) (m # ms) st = (r # rs', st2)"
    by (simp add: 1 2)
  with Cons.prems(2) have rs: "rs = r # rs'" and st': "st' = st2" by simp_all
  from concept_of_filtered[OF Cons.prems(1) 1]
  have f1: "caches_filtered eps st1" "\<forall>x. r = Some x \<longrightarrow> filtered eps x" by simp_all
  from Cons.IH[OF f1(1) 2]
  have f2: "caches_filtered eps st2" "\<forall>x. Some x \<in> set rs' \<longrightarrow> filtered eps x" by simp_all
  have "\<forall>x. Some x \<in> set (r # rs') \<longrightarrow> filtered eps x"
    using f1(2) f2(2) by auto
  then show ?case unfolding rs st' using f2(1) by blast
qed


text \<open>What \<^verbatim>\<open>concept\<close> returns when the caches are exact: the result without any cache.\<close>

definition concept_uncached :: "real \<Rightarrow> candidate_system \<Rightarrow> nat list \<Rightarrow> cut option \<Rightarrow> concept option" where
  "concept_uncached eps sub m c =
     (if m = [] then None
      else if \<not> (cs_all_connect_to_any sub m (cs_nodes sub)
                 \<and> cs_any_connect_to_all sub (cs_nodes sub) m) then None
      else concept_body eps sub m (effective_cut sub c))"

lemma memoized_concept_exact:
  assumes "caches_exact eps raw_key marblset sub c st"
    and "keys_faithful eps raw_key marblset sub c"
    and "memoized_concept eps marblset sub m c st = (r, st')"
  shows "caches_exact eps raw_key marblset sub c st' \<and> r = concept_body eps sub m c
     \<and> db st' = db st"
proof (cases "memory st (marblset m c)")
  case None
  with assms(3) have r: "r = concept_body eps sub m c"
    and st': "st' = st\<lparr>memory := (memory st)(marblset m c := Some r)\<rparr>"
    by (auto simp: memoized_concept_def Let_def)
  have "\<forall>m' r'. memory st' (marblset m' c) = Some r' \<longrightarrow> concept_body eps sub m' c = r'"
  proof (intro allI impI)
    fix m' r'
    assume a: "memory st' (marblset m' c) = Some r'"
    show "concept_body eps sub m' c = r'"
    proof (cases "marblset m' c = marblset m c")
      case True
      with a st' have "r' = r" by simp
      moreover have "concept_body eps sub m' c = concept_body eps sub m c"
        using assms(2) True unfolding keys_faithful_def by blast
      ultimately show ?thesis using r by simp
    next
      case False
      with a st' have "memory st (marblset m' c) = Some r'" by simp
      with assms(1) show ?thesis unfolding caches_exact_def by blast
    qed
  qed
  then have mem: "\<forall>m' r'. memory st' (marblset m' c) = Some r' \<longrightarrow> concept_body eps sub m' c = r'" .
  have dbeq: "db st' = db st" using st' by simp
  have "\<forall>m' x. db st (raw_key m' c) = Some x \<longrightarrow> concept_body eps sub m' c = Some x"
    using assms(1) unfolding caches_exact_def by blast
  then have dbs: "\<forall>m' x. db st' (raw_key m' c) = Some x \<longrightarrow> concept_body eps sub m' c = Some x"
    unfolding dbeq .
  have "caches_exact eps raw_key marblset sub c st'"
    unfolding caches_exact_def using mem dbs by blast
  then show ?thesis using r dbeq by blast
next
  case (Some v)
  with assms(3) have rv: "r = v" and ss: "st' = st" by (auto simp: memoized_concept_def)
  have "concept_body eps sub m c = v"
    using Some assms(1) unfolding caches_exact_def by blast
  then show ?thesis using assms(1) rv unfolding ss by blast
qed

lemma concept_of_exact:
  assumes "caches_exact eps raw_key marblset sub (effective_cut sub c) st"
    and "keys_faithful eps raw_key marblset sub (effective_cut sub c)"
    and "concept_of eps raw_key marblset sub m c st = (r, st')"
  shows "caches_exact eps raw_key marblset sub (effective_cut sub c) st'
     \<and> r = concept_uncached eps sub m c"
proof (cases "m = [] \<or> \<not> (cs_all_connect_to_any sub m (cs_nodes sub)
                 \<and> cs_any_connect_to_all sub (cs_nodes sub) m)")
  case True
  with assms(3) have "r = None" "st' = st" by (auto simp: concept_of_def split: if_splits)
  moreover from True have "concept_uncached eps sub m c = None"
    by (auto simp: concept_uncached_def)
  ultimately show ?thesis using assms(1) by simp
next
  case False
  let ?c = "effective_cut sub c"
  have unc: "concept_uncached eps sub m c = concept_body eps sub m ?c"
    using False by (auto simp: concept_uncached_def)
  show ?thesis
  proof (cases "db st (raw_key m ?c)")
    case (Some v)
    with False assms(3) have "r = Some v" "st' = st"
      by (auto simp: concept_of_def Let_def effective_cut_def)
    moreover from Some assms(1) have "concept_body eps sub m ?c = Some v"
      unfolding caches_exact_def by blast
    ultimately show ?thesis using assms(1) unc by metis
  next
    case None
    obtain r1 st1 where m1: "memoized_concept eps marblset sub m ?c st = (r1, st1)"
      by (cases "memoized_concept eps marblset sub m ?c st") auto
    with None False assms(3) have r: "r = r1"
      and st': "st' = st1\<lparr>db := (db st1)(raw_key m ?c := r1)\<rparr>"
      by (auto simp: concept_of_def Let_def effective_cut_def)
    from memoized_concept_exact[OF assms(1,2) m1]
    have e1: "caches_exact eps raw_key marblset sub ?c st1"
      and r1: "r1 = concept_body eps sub m ?c" by simp_all
    have "\<forall>m' x. db st' (raw_key m' ?c) = Some x \<longrightarrow> concept_body eps sub m' ?c = Some x"
    proof (intro allI impI)
      fix m' x
      assume a: "db st' (raw_key m' ?c) = Some x"
      show "concept_body eps sub m' ?c = Some x"
      proof (cases "raw_key m' ?c = raw_key m ?c")
        case True
        with a st' have "r1 = Some x" by simp
        moreover have "concept_body eps sub m' ?c = concept_body eps sub m ?c"
          using assms(2) True unfolding keys_faithful_def by blast
        ultimately show ?thesis using r1 by simp
      next
        case False
        with a st' have "db st1 (raw_key m' ?c) = Some x" by simp
        with e1 show ?thesis unfolding caches_exact_def by blast
      qed
    qed
    then have dbs: "\<forall>m' x. db st' (raw_key m' ?c) = Some x \<longrightarrow> concept_body eps sub m' ?c = Some x" .
    have memeq: "memory st' = memory st1" using st' by simp
    have "\<forall>m' r'. memory st1 (marblset m' ?c) = Some r' \<longrightarrow> concept_body eps sub m' ?c = r'"
      using e1 unfolding caches_exact_def by blast
    then have mem: "\<forall>m' r'. memory st' (marblset m' ?c) = Some r' \<longrightarrow> concept_body eps sub m' ?c = r'"
      unfolding memeq .
    have "caches_exact eps raw_key marblset sub ?c st'"
      unfolding caches_exact_def using mem dbs by blast
    then show ?thesis using r r1 unc by metis
  qed
qed

lemma concepts_of_exact:
  assumes "caches_exact eps raw_key marblset sub (effective_cut sub c) st"
    and "keys_faithful eps raw_key marblset sub (effective_cut sub c)"
    and "concepts_of (\<lambda>m. concept_of eps raw_key marblset sub m c) ms st = (rs, st')"
  shows "rs = map (\<lambda>m. concept_uncached eps sub m c) ms"
  using assms
proof (induction ms arbitrary: st rs st')
  case Nil
  then show ?case by simp
next
  case (Cons m ms)
  obtain r st1 where 1: "concept_of eps raw_key marblset sub m c st = (r, st1)"
    by (cases "concept_of eps raw_key marblset sub m c st") auto
  obtain rs' st2 where 2:
    "concepts_of (\<lambda>m. concept_of eps raw_key marblset sub m c) ms st1 = (rs', st2)"
    by (cases "concepts_of (\<lambda>m. concept_of eps raw_key marblset sub m c) ms st1") auto
  have "concepts_of (\<lambda>m. concept_of eps raw_key marblset sub m c) (m # ms) st = (r # rs', st2)"
    by (simp add: 1 2)
  with Cons.prems(3) have rs: "rs = r # rs'" by simp
  from concept_of_exact[OF Cons.prems(1,2) 1]
  have e1: "caches_exact eps raw_key marblset sub (effective_cut sub c) st1"
    and r: "r = concept_uncached eps sub m c" by simp_all
  from Cons.IH[OF e1 Cons.prems(2) 2] r rs show ?case by simp
qed

lemma set_somes: "set (concat (map (\<lambda>r. case r of None \<Rightarrow> [] | Some x \<Rightarrow> [x]) rs)) = {x. Some x \<in> set rs}"
  by (induction rs) (auto split: option.splits)

text \<open>
  Claim C3. Every concept of the constellation returned by \<^verbatim>\<open>constellation(subsystem, cut)\<close>
  has a non-empty mechanism and \<open>\<phi>\<close> at least \<^verbatim>\<open>EPSILON\<close>, whatever concepts of that kind
  the caches held before; and when the caches are exact, the mechanism of every concept of
  the constellation has a minimum of cause \<open>\<phi>\<close> and effect \<open>\<phi>\<close> of at least \<^verbatim>\<open>EPSILON\<close>: a
  mechanism whose minimum is below \<^verbatim>\<open>EPSILON\<close> contributes no concept.
\<close>

theorem constellation_concept_filter:
  assumes "caches_filtered eps st"
  shows "(\<forall>x\<in>set (fst (constellation eps raw_key marblset sub c st)).
            concept_mechanism x \<noteq> [] \<and> eps \<le> concept_phi x)
     \<and> (caches_exact eps raw_key marblset sub (effective_cut sub c) st
          \<and> keys_faithful eps raw_key marblset sub (effective_cut sub c)
        \<longrightarrow> (\<forall>x\<in>set (fst (constellation eps raw_key marblset sub c st)).
               eps \<le> min (mice_phi (cs_core_cause sub (concept_mechanism x) (effective_cut sub c)))
                         (mice_phi (cs_core_effect sub (concept_mechanism x) (effective_cut sub c)))))"
proof -
  obtain rs st' where run:
    "concepts_of (\<lambda>m. concept_of eps raw_key marblset sub m c) (powerset (cs_nodes sub)) st = (rs, st')"
    by (cases "concepts_of (\<lambda>m. concept_of eps raw_key marblset sub m c) (powerset (cs_nodes sub)) st")
      auto
  then have "fst (constellation eps raw_key marblset sub c st)
      = concat (map (\<lambda>r. case r of None \<Rightarrow> [] | Some x \<Rightarrow> [x]) rs)"
    by (simp add: constellation_def)
  then have res: "set (fst (constellation eps raw_key marblset sub c st)) = {x. Some x \<in> set rs}"
    by (simp only: set_somes)
  have a: "\<forall>x\<in>set (fst (constellation eps raw_key marblset sub c st)).
            concept_mechanism x \<noteq> [] \<and> eps \<le> concept_phi x"
    using concepts_of_filtered[OF assms run] res by (auto simp: filtered_def)
  have b: "\<forall>x\<in>set (fst (constellation eps raw_key marblset sub c st)).
        eps \<le> min (mice_phi (cs_core_cause sub (concept_mechanism x) (effective_cut sub c)))
                  (mice_phi (cs_core_effect sub (concept_mechanism x) (effective_cut sub c)))"
    if ex: "caches_exact eps raw_key marblset sub (effective_cut sub c) st"
      and kf: "keys_faithful eps raw_key marblset sub (effective_cut sub c)"
  proof
    fix x
    assume "x \<in> set (fst (constellation eps raw_key marblset sub c st))"
    with res have "Some x \<in> set rs" by simp
    with concepts_of_exact[OF ex kf run] obtain m where
      "concept_uncached eps sub m c = Some x" by auto
    then have "concept_body eps sub m (effective_cut sub c) = Some x"
      by (auto simp: concept_uncached_def split: if_splits)
    from concept_body_min[OF this]
    show "eps \<le> min (mice_phi (cs_core_cause sub (concept_mechanism x) (effective_cut sub c)))
                  (mice_phi (cs_core_effect sub (concept_mechanism x) (effective_cut sub c)))"
      by simp
  qed
  from a b show ?thesis by blast
qed

text \<open>
  An example: two nodes; the mechanism \<open>(1)\<close> has a cause with \<open>\<phi> = 0\<close>, the other two
  mechanisms are irreducible. The caches are empty and the keys are the mechanism and the
  cut themselves.
\<close>

definition example_mice :: "real \<Rightarrow> mice" where
  "example_mice p = \<lparr>mice_phi = p, mice_purview = [], mice_repertoire = []\<rparr>"

definition example_system :: candidate_system where
  "example_system =
     \<lparr>cs_nodes = [0, 1],
      cs_connectivity_matrix = [[0, 1], [1, 0]],
      cs_null_cut = NullCut [0, 1],
      cs_null_concept =
        \<lparr>concept_mechanism = [], concept_phi = 0,
         concept_cause = example_mice 0, concept_effect = example_mice 0\<rparr>,
      cs_core_cause =
        (\<lambda>m c. example_mice (if m = [0] then 1 / 2 else if m = [1] then 0 else 1)),
      cs_core_effect = (\<lambda>m c. example_mice (if m = [0] then 1 / 4 else 1)),
      cs_all_connect_to_any = (\<lambda>a b. True),
      cs_any_connect_to_all = (\<lambda>a b. True)\<rparr>"

definition empty_caches :: "(nat list \<times> cut) caches" where
  "empty_caches = \<lparr>db = (\<lambda>k. None), memory = (\<lambda>k. None)\<rparr>"

theorem constellation_concept_filter_witness:
  "map concept_mechanism
     (fst (constellation (1 / 1000000) Pair Pair example_system None empty_caches)) = [[0], [0, 1]]
   \<and> list_all (\<lambda>x. concept_mechanism x \<noteq> [] \<and> 1 / 1000000 \<le> concept_phi x)
       (fst (constellation (1 / 1000000) Pair Pair example_system None empty_caches))
   \<and> list_all (\<lambda>x. 1 / 1000000
           \<le> min (mice_phi (cs_core_cause example_system (concept_mechanism x)
                        (effective_cut example_system None)))
                  (mice_phi (cs_core_effect example_system (concept_mechanism x)
                        (effective_cut example_system None))))
       (fst (constellation (1 / 1000000) Pair Pair example_system None empty_caches))"
proof -
  have h: "caches_filtered (1 / 1000000) empty_caches"
    by (simp add: caches_filtered_def empty_caches_def)
  have e: "caches_exact (1 / 1000000) Pair Pair example_system
      (effective_cut example_system None) empty_caches"
    by (simp add: caches_exact_def empty_caches_def)
  have k: "keys_faithful (1 / 1000000) Pair Pair example_system (effective_cut example_system None)"
    by (simp add: keys_faithful_def)
  have m: "map concept_mechanism
     (fst (constellation (1 / 1000000) Pair Pair example_system None empty_caches)) = [[0], [0, 1]]"
    by code_simp
  from constellation_concept_filter[OF h, of Pair Pair example_system None] e k m
  show ?thesis unfolding list_all_iff by blast
qed

section \<open>The distance between constellations\<close>

text \<open>
  \<^verbatim>\<open>concept_distance\<close> adds two Hamming EMDs between expanded repertoires; neither
  \<^verbatim>\<open>utils.hamming_emd\<close> nor the expansion is among the sources. This part gives the
  arithmetic of the two distance formulas for a given distance between concepts, the
  parameter \<open>concept_distance\<close>; the functions as they run against \<^verbatim>\<open>cyphi/utils.py\<close> come
  after it.

  The sum that \<^verbatim>\<open>_constellation_distance_simple\<close> forms.
\<close>

definition simple_formula ::
  "(concept \<Rightarrow> concept \<Rightarrow> candidate_system \<Rightarrow> cut \<Rightarrow> real) \<Rightarrow> concept list \<Rightarrow> concept list
     \<Rightarrow> candidate_system \<Rightarrow> cut \<Rightarrow> real" where
  "simple_formula concept_distance C1 C2 sub c =
     (let (C1', C2') = (if length C2 > length C1 then (C2, C1) else (C1, C2));
          destroyed = filter (\<lambda>x. x \<notin> set C2') C1'
      in sum_list (map (\<lambda>x. concept_phi x * concept_distance x (cs_null_concept sub) sub c)
                    destroyed))"

text \<open>
  What \<^verbatim>\<open>_constellation_distance_emd\<close> hands to the EMD solver: the two distributions of
  \<open>\<phi>\<close> over all concepts and the matrix of ground distances.
\<close>

definition emd_problem ::
  "(concept \<Rightarrow> concept \<Rightarrow> candidate_system \<Rightarrow> cut \<Rightarrow> real) \<Rightarrow> concept list \<Rightarrow> concept list
     \<Rightarrow> concept list \<Rightarrow> concept list \<Rightarrow> candidate_system \<Rightarrow> cut
     \<Rightarrow> real list \<times> real list \<times> real list list" where
  "emd_problem concept_distance C1 C2 unique_C1 unique_C2 sub c =
     (let shared_concepts = filter (\<lambda>x. x \<in> set C2) C1;
          all_concepts = shared_concepts @ unique_C1 @ unique_C2 @ [cs_null_concept sub];
          d1 = map (\<lambda>x. if x \<in> set C1 then concept_phi x else 0) all_concepts;
          d2 = map (\<lambda>x. if x \<in> set C2 then concept_phi x else 0) all_concepts;
          residual = sum_list d1 - sum_list d2;
          d2' = (if residual > 0 then d2[length d2 - 1 := residual] else d2);
          d1' = (if residual < 0 then d1[length d1 - 1 := residual] else d1);
          distance_matrix =
            map (\<lambda>j. map (\<lambda>i. concept_distance i j sub c) all_concepts) all_concepts
      in (d1', d2', distance_matrix))"

subsection \<open>The functions against the module \<^verbatim>\<open>utils\<close>\<close>

text \<open>
  The functions that \<^verbatim>\<open>cyphi/utils.py\<close> defines, each with the number of its parameters
  (none has a default value). The other names of the module are the ones it imports:
  \<^verbatim>\<open>np\<close>, \<^verbatim>\<open>match\<close>, \<^verbatim>\<open>chain\<close>, \<^verbatim>\<open>combinations\<close>, \<^verbatim>\<open>comb\<close>, \<^verbatim>\<open>ValidationException\<close>,
  \<^verbatim>\<open>cdist\<close> and \<^verbatim>\<open>_emd\<close>. A call \<^verbatim>\<open>utils.f(...)\<close> of a function raises
  \<^verbatim>\<open>AttributeError\<close> when the module has no \<^verbatim>\<open>f\<close> and \<^verbatim>\<open>TypeError\<close> when the number of
  arguments is not the number of parameters.
\<close>

definition utils_functions :: "(string \<times> nat) list" where
  "utils_functions =
     [(''combs'', 2), (''comb_indices'', 2), (''powerset'', 1), (''uniform_distribution'', 1),
      (''marginalize_out'', 2), (''max_entropy_distribution'', 2), (''emd'', 2),
      (''bipartition'', 1), (''_hamming_matrix'', 1), (''_bitstring_index'', 2),
      (''_flip'', 1), (''connectivity_matrix_to_tpm'', 1)]"

definition utils_call :: "string \<Rightarrow> nat \<Rightarrow> error + unit" where
  "utils_call name nargs =
     (case map_of utils_functions name of
        None \<Rightarrow> Inl AttributeError
      | Some k \<Rightarrow> if nargs = k then Inr () else Inl TypeError)"

text \<open>
  \<^verbatim>\<open>concept_distance\<close>: the sum of two calls of \<^verbatim>\<open>utils.hamming_emd\<close> on the expanded
  repertoires of the two concepts. The parameter \<open>hamming_sum\<close> is the sum that the two
  calls would give. The \<^verbatim>\<open>lru_cache\<close> of the function remembers results under all four
  arguments and changes none.
\<close>

definition concept_distance ::
  "(concept \<Rightarrow> concept \<Rightarrow> candidate_system \<Rightarrow> cut \<Rightarrow> real) \<Rightarrow> concept \<Rightarrow> concept
     \<Rightarrow> candidate_system \<Rightarrow> cut \<Rightarrow> error + real" where
  "concept_distance hamming_sum c1 c2 sub c =
     ebind (utils_call ''hamming_emd'' 2) (\<lambda>_.
     ebind (utils_call ''hamming_emd'' 2) (\<lambda>_.
       Inr (hamming_sum c1 c2 sub c)))"

definition constellation_distance_simple ::
  "(concept \<Rightarrow> concept \<Rightarrow> candidate_system \<Rightarrow> cut \<Rightarrow> real) \<Rightarrow> concept list \<Rightarrow> concept list
     \<Rightarrow> candidate_system \<Rightarrow> cut \<Rightarrow> error + real" where
  "constellation_distance_simple hamming_sum C1 C2 sub c =
     (let (C1', C2') = (if length C2 > length C1 then (C2, C1) else (C1, C2));
          destroyed = filter (\<lambda>x. x \<notin> set C2') C1'
      in ebind (emap (\<lambda>x. ebind (concept_distance hamming_sum x (cs_null_concept sub) sub c)
                              (\<lambda>d. Inr (concept_phi x * d)))
                  destroyed)
           (\<lambda>terms. Inr (sum_list terms)))"

text \<open>
  \<^verbatim>\<open>_constellation_distance_emd\<close>. The distance matrix is built by calls of
  \<^verbatim>\<open>concept_distance\<close>; the last statement is the call
  \<^verbatim>\<open>utils.emd(np.array(d1), np.array(d2), distance_matrix)\<close> with three arguments. The
  parameter \<open>emd\<close> is the value of a solver for the problem.
\<close>

definition constellation_distance_emd ::
  "(real list \<Rightarrow> real list \<Rightarrow> real list list \<Rightarrow> real)
     \<Rightarrow> (concept \<Rightarrow> concept \<Rightarrow> candidate_system \<Rightarrow> cut \<Rightarrow> real) \<Rightarrow> concept list \<Rightarrow> concept list
     \<Rightarrow> concept list \<Rightarrow> concept list \<Rightarrow> candidate_system \<Rightarrow> cut \<Rightarrow> error + real" where
  "constellation_distance_emd emd hamming_sum C1 C2 unique_C1 unique_C2 sub c =
     (let shared_concepts = filter (\<lambda>x. x \<in> set C2) C1;
          all_concepts = shared_concepts @ unique_C1 @ unique_C2 @ [cs_null_concept sub];
          d1 = map (\<lambda>x. if x \<in> set C1 then concept_phi x else 0) all_concepts;
          d2 = map (\<lambda>x. if x \<in> set C2 then concept_phi x else 0) all_concepts;
          residual = sum_list d1 - sum_list d2;
          d2' = (if residual > 0 then d2[length d2 - 1 := residual] else d2);
          d1' = (if residual < 0 then d1[length d1 - 1 := residual] else d1)
      in ebind (emap (\<lambda>j. emap (\<lambda>i. concept_distance hamming_sum i j sub c) all_concepts)
                  all_concepts) (\<lambda>distance_matrix.
         ebind (utils_call ''emd'' 3) (\<lambda>_.
           Inr (emd d1' d2' distance_matrix))))"

definition constellation_distance ::
  "(real list \<Rightarrow> real list \<Rightarrow> real list list \<Rightarrow> real)
     \<Rightarrow> (concept \<Rightarrow> concept \<Rightarrow> candidate_system \<Rightarrow> cut \<Rightarrow> real) \<Rightarrow> concept list \<Rightarrow> concept list
     \<Rightarrow> candidate_system \<Rightarrow> cut \<Rightarrow> error + real" where
  "constellation_distance emd hamming_sum C1 C2 sub c =
     (let concepts_only_in_C1 = filter (\<lambda>x. x \<notin> set C2) C1;
          concepts_only_in_C2 = filter (\<lambda>x. x \<notin> set C1) C2
      in if concepts_only_in_C1 = [] \<or> concepts_only_in_C2 = []
         then constellation_distance_simple hamming_sum C1 C2 sub c
         else constellation_distance_emd emd hamming_sum C1 C2
                concepts_only_in_C1 concepts_only_in_C2 sub c)"

subsection \<open>The Earth Mover's Distance\<close>

text \<open>
  Modelled from the spec: the EMD solver is a third-party library (section 1). The Earth
  Mover's Distance of two distributions is the least cost of a flow that moves the first
  onto the second: a flow is a non-negative amount for every pair of slots whose row sums
  are the first distribution and whose column sums are the second; moving from slot \<open>i\<close>
  to slot \<open>j\<close> costs the entry \<open>(i, j)\<close> of the distance matrix.
\<close>

definition feasible_flow :: "real list \<Rightarrow> real list \<Rightarrow> (nat \<Rightarrow> nat \<Rightarrow> real) \<Rightarrow> bool" where
  "feasible_flow d1 d2 f =
     ((\<forall>i<length d1. \<forall>j<length d2. 0 \<le> f i j)
      \<and> (\<forall>i<length d1. (\<Sum>j<length d2. f i j) = d1 ! i)
      \<and> (\<forall>j<length d2. (\<Sum>i<length d1. f i j) = d2 ! j))"

definition flow_cost :: "real list list \<Rightarrow> nat \<Rightarrow> (nat \<Rightarrow> nat \<Rightarrow> real) \<Rightarrow> real" where
  "flow_cost m n f = (\<Sum>i<n. \<Sum>j<n. f i j * m ! i ! j)"

definition is_emd :: "real list \<Rightarrow> real list \<Rightarrow> real list list \<Rightarrow> real \<Rightarrow> bool" where
  "is_emd d1 d2 m v =
     ((\<exists>f. feasible_flow d1 d2 f \<and> flow_cost m (length d1) f = v)
      \<and> (\<forall>f. feasible_flow d1 d2 f \<longrightarrow> v \<le> flow_cost m (length d1) f))"

text \<open>
  Two constellations of the example system with one concept each, of \<open>\<phi> = 1\<close> and \<open>\<phi> = 2\<close>,
  and a distance between concepts: 0 between equal concepts, 1 otherwise.
\<close>

definition concept_a :: concept where
  "concept_a = \<lparr>concept_mechanism = [0], concept_phi = 1,
                 concept_cause = example_mice 1, concept_effect = example_mice 1\<rparr>"

definition concept_b :: concept where
  "concept_b = \<lparr>concept_mechanism = [1], concept_phi = 2,
                 concept_cause = example_mice 2, concept_effect = example_mice 2\<rparr>"

definition discrete_distance :: "concept \<Rightarrow> concept \<Rightarrow> candidate_system \<Rightarrow> cut \<Rightarrow> real" where
  "discrete_distance x y sub c = (if x = y then 0 else 1)"

lemma negative_mass_has_no_flow: "\<nexists>f. feasible_flow [1, 0, - 1] [0, 2, 0] f"
proof
  assume "\<exists>f. feasible_flow [1, 0, - 1] [0, 2, 0] f"
  then obtain f where f: "feasible_flow [1, 0, - 1] [0, 2, 0] f" by blast
  then have "(\<Sum>j<3. f 2 j) = - 1"
    unfolding feasible_flow_def by (auto simp: numeral_3_eq_3)
  moreover have "\<forall>j<3. 0 \<le> f 2 j"
    using f unfolding feasible_flow_def by (auto simp: numeral_3_eq_3)
  then have "0 \<le> (\<Sum>j<3. f 2 j)" by (intro sum_nonneg) simp
  ultimately show False by simp
qed

text \<open>
  Claim C6 at the constellations \<open>(a)\<close> and \<open>(b)\<close>. From \<open>(a)\<close> to \<open>(b)\<close> the residual is
  negative and is written as it is into the null slot of the first distribution, which
  then holds a negative mass and sums to 0 against 2 (by \<open>negative_mass_has_no_flow\<close> no
  flow moves the one onto the other); from \<open>(b)\<close> to \<open>(a)\<close> the residual is positive and
  both distributions sum to 2.
\<close>

theorem constellation_distance_emd_residual_sign:
  "emd_problem discrete_distance [concept_a] [concept_b] [concept_a] [concept_b]
       example_system (NullCut [0, 1])
     = ([1, 0, - 1], [0, 2, 0], [[0, 1, 1], [1, 0, 1], [1, 1, 0]])
   \<and> emd_problem discrete_distance [concept_b] [concept_a] [concept_b] [concept_a]
       example_system (NullCut [0, 1])
     = ([2, 0, 0], [0, 1, 1], [[0, 1, 1], [1, 0, 1], [1, 1, 0]])"
  by code_simp

lemma sum_nth_map2:
  "length xs = length ys \<Longrightarrow>
     (\<Sum>i<length xs. g (xs ! i) (ys ! i)) = sum_list (map2 g xs ys)"
proof -
  assume l: "length xs = length ys"
  have "sum_list (map2 g xs ys) = (\<Sum>i = 0..<length (map2 g xs ys). map2 g xs ys ! i)"
    by (rule sum_list_sum_nth)
  also have "\<dots> = (\<Sum>i<length xs. g (xs ! i) (ys ! i))"
    using l by (intro sum.cong) (auto simp: atLeast0LessThan)
  finally show ?thesis by simp
qed

lemma transport_lower_bound:
  fixes u :: "nat \<Rightarrow> real"
  assumes "feasible_flow d1 d2 f" and "length d1 = n" and "length d2 = n"
    and "\<forall>i<n. \<forall>j<n. u i - u j \<le> m ! i ! j"
  shows "(\<Sum>i<n. u i * d1 ! i) - (\<Sum>j<n. u j * d2 ! j) \<le> flow_cost m n f"
proof -
  have nn: "\<forall>i<n. \<forall>j<n. 0 \<le> f i j"
    and rows: "\<forall>i<n. (\<Sum>j<n. f i j) = d1 ! i"
    and cols: "\<forall>j<n. (\<Sum>i<n. f i j) = d2 ! j"
    using assms(1,2,3) unfolding feasible_flow_def by auto
  have "(\<Sum>i<n. u i * d1 ! i) = (\<Sum>i<n. \<Sum>j<n. f i j * u i)"
  proof (rule sum.cong)
    fix i
    assume "i \<in> {..<n}"
    then have "d1 ! i = (\<Sum>j<n. f i j)" using rows by simp
    then show "u i * d1 ! i = (\<Sum>j<n. f i j * u i)"
      by (simp add: sum_distrib_left mult.commute)
  qed simp
  moreover have "(\<Sum>j<n. u j * d2 ! j) = (\<Sum>i<n. \<Sum>j<n. f i j * u j)"
  proof -
    have "(\<Sum>j<n. u j * d2 ! j) = (\<Sum>j<n. \<Sum>i<n. f i j * u j)"
    proof (rule sum.cong)
      fix j
      assume "j \<in> {..<n}"
      then have "d2 ! j = (\<Sum>i<n. f i j)" using cols by simp
      then show "u j * d2 ! j = (\<Sum>i<n. f i j * u j)"
        by (simp add: sum_distrib_left mult.commute)
    qed simp
    also have "\<dots> = (\<Sum>i<n. \<Sum>j<n. f i j * u j)" by (rule sum.swap)
    finally show ?thesis .
  qed
  ultimately have "(\<Sum>i<n. u i * d1 ! i) - (\<Sum>j<n. u j * d2 ! j)
      = (\<Sum>i<n. \<Sum>j<n. f i j * (u i - u j))"
    by (simp add: sum_subtractf right_diff_distrib)
  also have "\<dots> \<le> (\<Sum>i<n. \<Sum>j<n. f i j * m ! i ! j)"
  proof (intro sum_mono)
    fix i j
    assume "i \<in> {..<n}" "j \<in> {..<n}"
    then have "0 \<le> f i j" "u i - u j \<le> m ! i ! j" using nn assms(4) by auto
    then show "f i j * (u i - u j) \<le> f i j * m ! i ! j" by (rule mult_left_mono[rotated])
  qed
  finally show ?thesis by (simp add: flow_cost_def)
qed

lemma sum_middle_nth:
  "(\<Sum>i = length S..<length S + length U. g ((S @ U @ Z) ! i)) = sum_list (map g U)"
proof -
  have "(\<Sum>i = length S..<length S + length U. g ((S @ U @ Z) ! i))
      = (\<Sum>i = 0..<length U. g ((S @ U @ Z) ! (i + length S)))"
    using sum.shift_bounds_nat_ivl[of "\<lambda>i. g ((S @ U @ Z) ! i)" 0 "length S" "length U"]
    by (simp add: add.commute)
  also have "\<dots> = (\<Sum>i = 0..<length U. g (U ! i))"
    by (intro sum.cong) (auto simp: nth_append)
  also have "\<dots> = sum_list (map g U)"
    by (simp add: sum_list_sum_nth)
  finally show ?thesis .
qed

lemma sum_three_ranges:
  fixes g :: "nat \<Rightarrow> real"
  shows "(\<Sum>i<s + k + 1. g i) = (\<Sum>i<s. g i) + (\<Sum>i = s..<s + k. g i) + g (s + k)"
proof -
  have "(\<Sum>i<s + k. g i) = (\<Sum>i<s. g i) + (\<Sum>i = s..<s + k. g i)"
    using sum.atLeastLessThan_concat[of 0 s "s + k" g] by (simp add: atLeast0LessThan)
  then show ?thesis by simp
qed

lemma map2_map_same: "map2 g xs (map h xs) = map (\<lambda>x. g x (h x)) xs"
  by (induction xs) auto

lemma emd_shared_unique:
  fixes w :: "'a \<Rightarrow> real" and D :: "'a \<Rightarrow> 'a \<Rightarrow> real"
  assumes nonneg: "\<forall>x\<in>set S \<union> set U. 0 \<le> w x"
    and D0: "\<forall>x. D x x = 0"
    and Dsym: "\<forall>x y. D x y = D y x"
    and Dtri: "\<forall>x y v. D x v \<le> D x y + D y v"
  shows "is_emd (map w S @ map w U @ [0])
           (map w S @ map (\<lambda>x. 0) U @ [sum_list (map w U)])
           (map (\<lambda>j. map (\<lambda>i. D i j) (S @ U @ [z])) (S @ U @ [z]))
           (sum_list (map (\<lambda>x. w x * D x z) U))"
proof -
  let ?all = "S @ U @ [z]"
  let ?s = "length S"
  let ?k = "length U"
  let ?n = "?s + ?k + 1"
  let ?d1 = "map w S @ map w U @ [0]"
  let ?d2 = "map w S @ map (\<lambda>x. 0) U @ [sum_list (map w U)]"
  let ?M = "map (\<lambda>j. map (\<lambda>i. D i j) ?all) ?all"
  let ?v = "sum_list (map (\<lambda>x. w x * D x z) U)"
  have len: "length ?d1 = ?n" "length ?d2 = ?n" "length ?all = ?n" by simp_all
  have M: "?M ! i ! j = D (?all ! j) (?all ! i)" if "i < ?n" "j < ?n" for i j
  proof -
    have "?M ! i = map (\<lambda>x. D x (?all ! i)) ?all"
      using that(1) len(3) by (simp only: nth_map)
    then show ?thesis using that(2) len(3) by (simp only: nth_map)
  qed
  have d1_S: "?d1 ! i = w (S ! i)" "?all ! i = S ! i" if "i < ?s" for i
    using that by (simp_all add: nth_append)
  have d1_U: "?d1 ! i = w (U ! (i - ?s))" "?all ! i = U ! (i - ?s)"
    if "?s \<le> i" "i < ?s + ?k" for i
    using that by (auto simp: nth_append)
  have d1_z: "?d1 ! (?s + ?k) = 0" "?all ! (?s + ?k) = z"
    by (simp_all add: nth_append)
  have d2_S: "?d2 ! j = w (S ! j)" if "j < ?s" for j
    using that by (simp add: nth_append)
  have d2_U: "?d2 ! j = 0" if "?s \<le> j" "j < ?s + ?k" for j
    using that by (auto simp: nth_append)
  have d2_z: "?d2 ! (?s + ?k) = sum_list (map w U)"
    by (simp add: nth_append)
  have d1_nonneg: "0 \<le> ?d1 ! i" if "i < ?n" for i
  proof -
    have "\<forall>y\<in>set ?d1. 0 \<le> y" using nonneg by auto
    moreover have "?d1 ! i \<in> set ?d1" using that len(1) by (simp only: nth_mem)
    ultimately show ?thesis by blast
  qed
  \<comment> \<open>the lower bound\<close>
  have lower: "?v \<le> flow_cost ?M (length ?d1) f" if f: "feasible_flow ?d1 ?d2 f" for f
  proof -
    let ?u = "\<lambda>i. D (?all ! i) z"
    have tri: "\<forall>i<?n. \<forall>j<?n. ?u i - ?u j \<le> ?M ! i ! j"
    proof (intro allI impI)
      fix i j
      assume ij: "i < ?n" "j < ?n"
      have "D (?all ! i) z \<le> D (?all ! i) (?all ! j) + D (?all ! j) z" using Dtri by blast
      moreover have "D (?all ! i) (?all ! j) = D (?all ! j) (?all ! i)" using Dsym by blast
      ultimately show "?u i - ?u j \<le> ?M ! i ! j" using M[OF ij] by simp
    qed
    from transport_lower_bound[OF f len(1) len(2) tri]
    have lb: "(\<Sum>i<?n. ?u i * ?d1 ! i) - (\<Sum>j<?n. ?u j * ?d2 ! j) \<le> flow_cost ?M ?n f" .
    have "(\<Sum>i<?n. ?u i * ?d1 ! i) = sum_list (map2 (\<lambda>x y. D x z * y) ?all ?d1)"
      using sum_nth_map2[of ?all ?d1 "\<lambda>x y. D x z * y"] by simp
    also have "\<dots> = sum_list (map (\<lambda>x. D x z * w x) S) + sum_list (map (\<lambda>x. D x z * w x) U)"
      by (simp add: map2_map_same)
    finally have s1: "(\<Sum>i<?n. ?u i * ?d1 ! i)
        = sum_list (map (\<lambda>x. D x z * w x) S) + sum_list (map (\<lambda>x. D x z * w x) U)" .
    have "(\<Sum>j<?n. ?u j * ?d2 ! j) = sum_list (map2 (\<lambda>x y. D x z * y) ?all ?d2)"
      using sum_nth_map2[of ?all ?d2 "\<lambda>x y. D x z * y"] by simp
    also have "\<dots> = sum_list (map (\<lambda>x. D x z * w x) S)"
      using D0 by (simp add: map2_map_same)
    finally have s2: "(\<Sum>j<?n. ?u j * ?d2 ! j) = sum_list (map (\<lambda>x. D x z * w x) S)" .
    have "?v = sum_list (map (\<lambda>x. D x z * w x) U)"
      by (simp add: mult.commute)
    with lb s1 s2 show ?thesis by simp
  qed
  \<comment> \<open>a flow that attains it\<close>
  define f0 where "f0 = (\<lambda>i j. if i < ?s then (if j = i then ?d1 ! i else 0)
                          else if i < ?s + ?k then (if j = ?s + ?k then ?d1 ! i else 0)
                          else (0::real))"
  have f0_nonneg: "0 \<le> f0 i j" if "i < ?n" for i j
    using d1_nonneg[OF that] by (simp add: f0_def)
  have rows: "(\<Sum>j<?n. f0 i j) = ?d1 ! i" if i: "i < ?n" for i
  proof -
    consider "i < ?s" | "?s \<le> i" "i < ?s + ?k" | "i = ?s + ?k" using i by linarith
    then show ?thesis
    proof cases
      case 1
      then have "(\<Sum>j<?n. f0 i j) = (\<Sum>j<?n. if j = i then ?d1 ! i else 0)"
        by (simp add: f0_def)
      also have "\<dots> = ?d1 ! i" using i by (simp only: sum.delta finite_lessThan lessThan_iff if_True)
      finally show ?thesis .
    next
      case 2
      then have "(\<Sum>j<?n. f0 i j) = (\<Sum>j<?n. if j = ?s + ?k then ?d1 ! i else 0)"
        by (simp add: f0_def)
      also have "\<dots> = ?d1 ! i" by (simp add: sum.delta)
      finally show ?thesis .
    next
      case 3
      then have "(\<Sum>j<?n. f0 i j) = 0" by (simp add: f0_def)
      with 3 d1_z(1) show ?thesis by simp
    qed
  qed
  have mid: "(\<Sum>i = ?s..<?s + ?k. ?d1 ! i) = sum_list (map w U)"
    using sum_middle_nth[where S = "map w S" and U = "map w U" and g = "\<lambda>x. x" and Z = "[0]"]
    by simp
  have cols: "(\<Sum>i<?n. f0 i j) = ?d2 ! j" if j: "j < ?n" for j
  proof -
    have a: "(\<Sum>i<?s. f0 i j) = (if j < ?s then ?d1 ! j else 0)"
    proof -
      have "(\<Sum>i<?s. f0 i j) = (\<Sum>i<?s. if i = j then ?d1 ! i else 0)"
        by (intro sum.cong) (auto simp: f0_def)
      also have "\<dots> = (if j < ?s then ?d1 ! j else 0)"
        by (simp add: sum.delta)
      finally show ?thesis .
    qed
    have b: "(\<Sum>i = ?s..<?s + ?k. f0 i j) = (if j = ?s + ?k then sum_list (map w U) else 0)"
    proof -
      have "(\<Sum>i = ?s..<?s + ?k. f0 i j)
          = (\<Sum>i = ?s..<?s + ?k. if j = ?s + ?k then ?d1 ! i else 0)"
        by (intro sum.cong) (auto simp: f0_def)
      also have "\<dots> = (if j = ?s + ?k then (\<Sum>i = ?s..<?s + ?k. ?d1 ! i) else 0)"
        by simp
      finally show ?thesis using mid by simp
    qed
    have c: "f0 (?s + ?k) j = 0" by (simp add: f0_def)
    have "(\<Sum>i<?n. f0 i j) = (\<Sum>i<?s. f0 i j) + (\<Sum>i = ?s..<?s + ?k. f0 i j) + f0 (?s + ?k) j"
      by (rule sum_three_ranges)
    then have total: "(\<Sum>i<?n. f0 i j)
        = (if j < ?s then ?d1 ! j else 0) + (if j = ?s + ?k then sum_list (map w U) else 0)"
      using a b c by simp
    consider "j < ?s" | "?s \<le> j" "j < ?s + ?k" | "j = ?s + ?k" using j by linarith
    then show ?thesis
    proof cases
      case 1
      with total d1_S(1)[OF 1] d2_S[OF 1] show ?thesis by simp
    next
      case 2
      with total d2_U[OF 2] show ?thesis by simp
    next
      case 3
      with total d2_z show ?thesis by simp
    qed
  qed
  have feas: "feasible_flow ?d1 ?d2 f0"
    unfolding feasible_flow_def len using f0_nonneg rows cols by blast
  have cost: "flow_cost ?M (length ?d1) f0 = ?v"
  proof -
    have inner_S: "(\<Sum>j<?n. f0 i j * ?M ! i ! j) = 0" if "i < ?s" for i
    proof -
      have "(\<Sum>j<?n. f0 i j * ?M ! i ! j) = (\<Sum>j<?n. if j = i then ?d1 ! i * ?M ! i ! i else 0)"
        using that by (intro sum.cong) (auto simp: f0_def)
      also have "\<dots> = ?d1 ! i * ?M ! i ! i" using that by (simp add: sum.delta)
      also have "\<dots> = 0" using M[of i i] that D0 by simp
      finally show ?thesis .
    qed
    have inner_U: "(\<Sum>j<?n. f0 i j * ?M ! i ! j) = w (?all ! i) * D z (?all ! i)"
      if "?s \<le> i" "i < ?s + ?k" for i
    proof -
      have "(\<Sum>j<?n. f0 i j * ?M ! i ! j)
          = (\<Sum>j<?n. if j = ?s + ?k then ?d1 ! i * ?M ! i ! (?s + ?k) else 0)"
        using that by (intro sum.cong) (auto simp: f0_def)
      also have "\<dots> = ?d1 ! i * ?M ! i ! (?s + ?k)" by (simp add: sum.delta)
      also have "\<dots> = w (?all ! i) * D z (?all ! i)"
        using M[of i "?s + ?k"] that d1_U[OF that] d1_z(2) by simp
      finally show ?thesis .
    qed
    have inner_z: "(\<Sum>j<?n. f0 (?s + ?k) j * ?M ! (?s + ?k) ! j) = 0"
      by (simp add: f0_def)
    have "flow_cost ?M ?n f0
        = (\<Sum>i<?s. \<Sum>j<?n. f0 i j * ?M ! i ! j)
          + (\<Sum>i = ?s..<?s + ?k. \<Sum>j<?n. f0 i j * ?M ! i ! j)
          + (\<Sum>j<?n. f0 (?s + ?k) j * ?M ! (?s + ?k) ! j)"
      unfolding flow_cost_def by (rule sum_three_ranges)
    also have "\<dots> = (\<Sum>i = ?s..<?s + ?k. w (?all ! i) * D z (?all ! i))"
      using inner_S inner_U inner_z by simp
    also have "\<dots> = sum_list (map (\<lambda>x. w x * D z x) U)"
      by (rule sum_middle_nth)
    also have "\<dots> = ?v" using Dsym by (metis (no_types, opaque_lifting))
    finally show ?thesis by (simp only: len)
  qed
  show ?thesis
    unfolding is_emd_def using feas cost lower by blast
qed

lemma emd_problem_subset:
  assumes sub: "set C2 \<subseteq> set C1"
    and null: "cs_null_concept sys \<notin> set C1"
    and nonneg: "\<forall>x\<in>set C1. 0 \<le> concept_phi x"
  shows "emd_problem cd C1 C2 (filter (\<lambda>x. x \<notin> set C2) C1) (filter (\<lambda>x. x \<notin> set C1) C2) sys c
     = (map concept_phi (filter (\<lambda>x. x \<in> set C2) C1)
          @ map concept_phi (filter (\<lambda>x. x \<notin> set C2) C1) @ [0],
        map concept_phi (filter (\<lambda>x. x \<in> set C2) C1)
          @ map (\<lambda>x. 0) (filter (\<lambda>x. x \<notin> set C2) C1)
          @ [sum_list (map concept_phi (filter (\<lambda>x. x \<notin> set C2) C1))],
        map (\<lambda>j. map (\<lambda>i. cd i j sys c)
                     (filter (\<lambda>x. x \<in> set C2) C1 @ filter (\<lambda>x. x \<notin> set C2) C1
                        @ [cs_null_concept sys]))
          (filter (\<lambda>x. x \<in> set C2) C1 @ filter (\<lambda>x. x \<notin> set C2) C1
             @ [cs_null_concept sys]))"
proof -
  let ?S = "filter (\<lambda>x. x \<in> set C2) C1"
  let ?U = "filter (\<lambda>x. x \<notin> set C2) C1"
  let ?z = "cs_null_concept sys"
  let ?w1 = "\<lambda>x. if x \<in> set C1 then concept_phi x else 0"
  let ?w2 = "\<lambda>x. if x \<in> set C2 then concept_phi x else 0"
  let ?R = "sum_list (map concept_phi ?U)"
  have u2: "filter (\<lambda>x. x \<notin> set C1) C2 = []"
    using sub by (auto simp: filter_empty_conv)
  have nz: "?z \<notin> set C2" using sub null by blast
  have d1: "map ?w1 (?S @ ?U @ [?z]) = map concept_phi ?S @ map concept_phi ?U @ [0]"
    using null by simp
  have d2: "map ?w2 (?S @ ?U @ [?z]) = map concept_phi ?S @ map (\<lambda>x. 0) ?U @ [0]"
    using nz by simp
  have R: "sum_list (map concept_phi ?S @ map concept_phi ?U @ [0])
      - sum_list (map concept_phi ?S @ map (\<lambda>x. 0) ?U @ [0]) = ?R"
    by simp
  have Rnn: "0 \<le> ?R"
    using nonneg by (intro sum_list_nonneg) auto
  have upd: "(map concept_phi ?S @ map (\<lambda>x. 0) ?U @ [0])
      [length (map concept_phi ?S @ map (\<lambda>x. 0) ?U @ [0::real]) - 1 := ?R]
      = map concept_phi ?S @ map (\<lambda>x. 0) ?U @ [?R]"
  proof -
    have "((map concept_phi ?S @ map (\<lambda>x. 0) ?U) @ [0])
        [length (map concept_phi ?S @ map (\<lambda>x. 0) ?U) := ?R]
        = (map concept_phi ?S @ map (\<lambda>x. 0) ?U) @ [?R]"
      by (rule list_update_length)
    then show ?thesis by simp
  qed
  have d2': "(if ?R > 0
        then (map concept_phi ?S @ map (\<lambda>x. 0) ?U @ [0])
               [length (map concept_phi ?S @ map (\<lambda>x. 0) ?U @ [0::real]) - 1 := ?R]
        else map concept_phi ?S @ map (\<lambda>x. 0) ?U @ [0])
      = map concept_phi ?S @ map (\<lambda>x. 0) ?U @ [?R]"
  proof (cases "?R > 0")
    case True
    then show ?thesis using upd by simp
  next
    case False
    with Rnn have "?R = 0" by simp
    with False show ?thesis by simp
  qed
  have d1': "(if ?R < 0
        then (map concept_phi ?S @ map concept_phi ?U @ [0])
               [length (map concept_phi ?S @ map concept_phi ?U @ [0::real]) - 1 := ?R]
        else map concept_phi ?S @ map concept_phi ?U @ [0])
      = map concept_phi ?S @ map concept_phi ?U @ [0]"
    using Rnn by simp
  show ?thesis
    unfolding emd_problem_def Let_def u2 append_Nil d1 d2 R d1' d2' ..
qed

lemma simple_subset:
  assumes "set C2 \<subseteq> set C1" and "distinct C2"
  shows "simple_formula cd C1 C2 sys c
     = sum_list (map (\<lambda>x. concept_phi x * cd x (cs_null_concept sys) sys c)
         (filter (\<lambda>x. x \<notin> set C2) C1))"
proof -
  have "length C2 = card (set C2)" using assms(2) by (simp add: distinct_card)
  also have "\<dots> \<le> card (set C1)" using assms(1) by (simp add: card_mono)
  also have "\<dots> \<le> length C1" by (rule card_length)
  finally have "\<not> length C2 > length C1" by simp
  then show ?thesis by (simp add: simple_formula_def)
qed

text \<open>
  The fast path in exact arithmetic. Let \<open>C2\<close> be a subset of \<open>C1\<close>, both without repeated
  concepts, none of them the null concept, with non-negative \<open>\<phi>\<close>, and let the distance
  between concepts be zero from a concept to itself, symmetric and subject to the triangle
  inequality. Then the value of the simple formula is the Earth Mover's Distance of the
  problem that the EMD formula builds for the same pair: it is the cost of a flow between
  the two distributions, and no flow costs less.
\<close>

lemma simple_distance_is_emd:
  assumes "set C2 \<subseteq> set C1" and "distinct C1" and "distinct C2"
    and "cs_null_concept sys \<notin> set C1"
    and "\<forall>x\<in>set C1. 0 \<le> concept_phi x"
    and "\<forall>x. cd x x sys c = 0"
    and "\<forall>x y. cd x y sys c = cd y x sys c"
    and "\<forall>x y z. cd x z sys c \<le> cd x y sys c + cd y z sys c"
  shows "case emd_problem cd C1 C2 (filter (\<lambda>x. x \<notin> set C2) C1)
                (filter (\<lambda>x. x \<notin> set C1) C2) sys c of
           (d1, d2, distance_matrix) \<Rightarrow>
             is_emd d1 d2 distance_matrix (simple_formula cd C1 C2 sys c)"
proof -
  let ?S = "filter (\<lambda>x. x \<in> set C2) C1"
  let ?U = "filter (\<lambda>x. x \<notin> set C2) C1"
  have nn: "\<forall>x\<in>set ?S \<union> set ?U. 0 \<le> concept_phi x" using assms(5) by auto
  from emd_shared_unique[where w = concept_phi and D = "\<lambda>x y. cd x y sys c" and S = ?S
      and U = ?U and z = "cs_null_concept sys", OF nn assms(6) assms(7) assms(8)]
  show ?thesis
    unfolding emd_problem_subset[OF assms(1,4,5)] simple_subset[OF assms(1,3)] by simp
qed

lemma simple_distance_is_emd_example:
  "emd_problem discrete_distance [concept_a, concept_b] [concept_a]
       [concept_b] [] example_system (NullCut [0, 1])
     = ([1, 2, 0], [1, 0, 2], [[0, 1, 1], [1, 0, 1], [1, 1, 0]])
   \<and> simple_formula discrete_distance [concept_a, concept_b] [concept_a]
       example_system (NullCut [0, 1]) = 2
   \<and> is_emd [1, 2, 0] [1, 0, 2] [[0, 1, 1], [1, 0, 1], [1, 1, 0]] 2"
proof -
  let ?C1 = "[concept_a, concept_b]"
  let ?C2 = "[concept_a]"
  let ?c = "NullCut [0, 1]"
  have ab: "concept_a \<noteq> concept_b" by (simp add: concept_a_def concept_b_def)
  have h1: "set ?C2 \<subseteq> set ?C1" by simp
  have h2: "distinct ?C1" using ab by simp
  have h3: "distinct ?C2" by simp
  have h4: "cs_null_concept example_system \<notin> set ?C1"
    by (simp add: example_system_def concept_a_def concept_b_def)
  have h5: "\<forall>x\<in>set ?C1. 0 \<le> concept_phi x"
    by (simp add: concept_a_def concept_b_def)
  have h6: "\<forall>x. discrete_distance x x example_system ?c = 0"
    by (simp add: discrete_distance_def)
  have h7: "\<forall>x y. discrete_distance x y example_system ?c = discrete_distance y x example_system ?c"
    by (auto simp: discrete_distance_def)
  have h8: "\<forall>x y z. discrete_distance x z example_system ?c
      \<le> discrete_distance x y example_system ?c + discrete_distance y z example_system ?c"
    by (auto simp: discrete_distance_def)
  have u1: "filter (\<lambda>x. x \<notin> set ?C2) ?C1 = [concept_b]" using ab by auto
  have u2: "filter (\<lambda>x. x \<notin> set ?C1) ?C2 = []" by simp
  have p: "emd_problem discrete_distance ?C1 ?C2 [concept_b] [] example_system ?c
     = ([1, 2, 0], [1, 0, 2], [[0, 1, 1], [1, 0, 1], [1, 1, 0]])"
    by code_simp
  have s: "simple_formula discrete_distance ?C1 ?C2 example_system ?c = 2"
    by code_simp
  from simple_distance_is_emd[where cd = discrete_distance and sys = example_system
      and c = "NullCut [0, 1]", OF h1 h2 h3 h4 h5 h6 h7 h8]
  have "is_emd [1, 2, 0] [1, 0, 2] [[0, 1, 1], [1, 0, 1], [1, 1, 0]] 2"
    unfolding u1 u2 p s by simp
  with p s show ?thesis by blast
qed

text \<open>The Earth Mover's Distance of a problem is one value.\<close>

lemma is_emd_unique:
  assumes "is_emd d1 d2 m v" and "is_emd d1 d2 m w"
  shows "v = w"
proof -
  from assms(1) obtain f where f: "feasible_flow d1 d2 f" "flow_cost m (length d1) f = v"
    unfolding is_emd_def by blast
  from assms(2) obtain g where g: "feasible_flow d1 d2 g" "flow_cost m (length d1) g = w"
    unfolding is_emd_def by blast
  from assms(1) g have "v \<le> w" unfolding is_emd_def by blast
  moreover from assms(2) f have "w \<le> v" unfolding is_emd_def by blast
  ultimately show ?thesis by simp
qed

text \<open>
  So a solver that returns the Earth Mover's Distance of the problem it is handed returns,
  on the problem of the EMD formula, the value of the simple formula.
\<close>

lemma solver_agrees_with_simple_formula:
  assumes "set C2 \<subseteq> set C1" and "distinct C1" and "distinct C2"
    and "cs_null_concept sys \<notin> set C1"
    and "\<forall>x\<in>set C1. 0 \<le> concept_phi x"
    and "\<forall>x. cd x x sys c = 0"
    and "\<forall>x y. cd x y sys c = cd y x sys c"
    and "\<forall>x y z. cd x z sys c \<le> cd x y sys c + cd y z sys c"
    and "emd_problem cd C1 C2 (filter (\<lambda>x. x \<notin> set C2) C1)
           (filter (\<lambda>x. x \<notin> set C1) C2) sys c = (d1, d2, distance_matrix)"
    and "is_emd d1 d2 distance_matrix (emd d1 d2 distance_matrix)"
  shows "emd d1 d2 distance_matrix = simple_formula cd C1 C2 sys c"
proof -
  from simple_distance_is_emd[where cd = cd and sys = sys and c = c, OF assms(1-8)] assms(9)
  have "is_emd d1 d2 distance_matrix (simple_formula cd C1 C2 sys c)" by simp
  with assms(10) show ?thesis by (rule is_emd_unique)
qed

subsection \<open>The two formulas as they run\<close>

lemma utils_call_hamming_emd: "utils_call ''hamming_emd'' 2 = Inl AttributeError"
  by code_simp

lemma utils_call_emd: "utils_call ''emd'' 3 = Inl TypeError"
  by code_simp

lemma concept_distance_raises: "concept_distance hamming_sum c1 c2 sub c = Inl AttributeError"
  by (simp add: concept_distance_def utils_call_hamming_emd)

lemma emap_first_raises: "f x = Inl e \<Longrightarrow> emap f (x # xs) = Inl e"
  by simp

text \<open>
  The simple formula calls \<^verbatim>\<open>concept_distance\<close> once for every destroyed concept: with
  none it returns 0, otherwise it raises.
\<close>

lemma constellation_distance_simple_runs:
  "constellation_distance_simple hamming_sum C1 C2 sub c =
     (if (if length C2 > length C1 then filter (\<lambda>x. x \<notin> set C1) C2
          else filter (\<lambda>x. x \<notin> set C2) C1) = []
      then Inr 0 else Inl AttributeError)"
proof (cases "length C2 > length C1")
  case True
  show ?thesis
  proof (cases "filter (\<lambda>x. x \<notin> set C1) C2")
    case Nil
    with True show ?thesis by (simp add: constellation_distance_simple_def)
  next
    case (Cons x xs)
    with True show ?thesis
      by (simp add: constellation_distance_simple_def concept_distance_raises)
  qed
next
  case False
  show ?thesis
  proof (cases "filter (\<lambda>x. x \<notin> set C2) C1")
    case Nil
    with False show ?thesis by (simp add: constellation_distance_simple_def)
  next
    case (Cons x xs)
    with False show ?thesis
      by (simp add: constellation_distance_simple_def concept_distance_raises)
  qed
qed

text \<open>
  The EMD formula calls \<^verbatim>\<open>concept_distance\<close> for every pair of its concepts, of which the
  null concept is always one: it raises on every input.
\<close>

lemma constellation_distance_emd_runs:
  "constellation_distance_emd emd hamming_sum C1 C2 unique_C1 unique_C2 sub c
     = Inl AttributeError"
proof -
  let ?all = "filter (\<lambda>x. x \<in> set C2) C1 @ unique_C1 @ unique_C2 @ [cs_null_concept sub]"
  obtain y ys where all: "?all = y # ys" by (cases ?all) simp_all
  have "emap (\<lambda>i. concept_distance hamming_sum i y sub c) ?all = Inl AttributeError"
    unfolding all by (simp add: concept_distance_raises)
  then have "emap (\<lambda>j. emap (\<lambda>i. concept_distance hamming_sum i j sub c) ?all) ?all
      = Inl AttributeError"
    by (subst (2) all) simp
  then show ?thesis
    by (simp add: constellation_distance_emd_def Let_def)
qed

text \<open>
  Claim C7 against \<^verbatim>\<open>cyphi/utils.py\<close>. For \<open>C2 = C1 = (a)\<close> the simple formula returns 0 and
  the EMD formula raises \<^verbatim>\<open>AttributeError\<close>, at the first call of \<^verbatim>\<open>utils.hamming_emd\<close>,
  which the module does not define; for \<open>C1 = (a, b)\<close> and \<open>C2 = (a)\<close> both raise it. The
  call of \<^verbatim>\<open>utils.emd\<close> with three arguments that ends the EMD formula raises
  \<^verbatim>\<open>TypeError\<close>: the module's \<^verbatim>\<open>emd\<close> takes two. So the EMD formula returns no value that
  could agree with the simple formula's.
\<close>

theorem constellation_distance_emd_raises:
  "constellation_distance_simple hamming_sum [concept_a] [concept_a] sub c = Inr 0
   \<and> constellation_distance_emd emd hamming_sum [concept_a] [concept_a] [] [] sub c
       = Inl AttributeError
   \<and> constellation_distance_simple hamming_sum [concept_a, concept_b] [concept_a] sub c
       = Inl AttributeError
   \<and> constellation_distance_emd emd hamming_sum [concept_a, concept_b] [concept_a]
         [concept_b] [] sub c
       = Inl AttributeError
   \<and> utils_call ''hamming_emd'' 2 = Inl AttributeError
   \<and> utils_call ''emd'' 3 = Inl TypeError"
proof -
  have ab: "concept_b \<noteq> concept_a" by (simp add: concept_a_def concept_b_def)
  have 1: "constellation_distance_simple hamming_sum [concept_a] [concept_a] sub c = Inr 0"
    by (simp add: constellation_distance_simple_runs)
  have 2: "constellation_distance_simple hamming_sum [concept_a, concept_b] [concept_a] sub c
       = Inl AttributeError"
    using ab by (simp add: constellation_distance_simple_runs)
  from 1 2 show ?thesis
    by (simp add: constellation_distance_emd_runs utils_call_hamming_emd utils_call_emd)
qed

section \<open>The minimum information partition of a subsystem\<close>

text \<open>
  A \<^verbatim>\<open>BigMip\<close> as \<^verbatim>\<open>compute.py\<close> builds it. The constellations of \<^verbatim>\<open>_null_mip\<close> are empty
  lists, those of \<^verbatim>\<open>_single_node_mip\<close> are \<^verbatim>\<open>None\<close>.
\<close>

record big_mip =
  bm_phi :: real
  bm_cut :: cut
  bm_unpartitioned_constellation :: "concept list option"
  bm_partitioned_constellation :: "concept list option"
  bm_subsystem :: candidate_system

text \<open>
  What \<^verbatim>\<open>compute.py\<close> takes from outside: the options \<^verbatim>\<open>EPSILON\<close> and
  \<^verbatim>\<open>SINGLE_NODES_WITH_SELFLOOPS_HAVE_PHI\<close>, the two cache keys of a mechanism under a cut,
  the value of the EMD solver, the sum of the Hamming EMDs between two concepts and the
  comparison of two \<^verbatim>\<open>BigMip\<close>s (the class is not among the sources).
\<close>

record 'k environment =
  opt_epsilon :: real
  opt_single_nodes_with_selfloops_have_phi :: bool
  env_raw_key :: "nat list \<Rightarrow> cut \<Rightarrow> 'k"
  env_marblset :: "nat list \<Rightarrow> cut \<Rightarrow> 'k"
  env_emd :: "real list \<Rightarrow> real list \<Rightarrow> real list list \<Rightarrow> real"
  env_concept_distance :: "concept \<Rightarrow> concept \<Rightarrow> candidate_system \<Rightarrow> cut \<Rightarrow> real"
  env_less :: "big_mip \<Rightarrow> big_mip \<Rightarrow> error + bool"

definition null_mip :: "candidate_system \<Rightarrow> big_mip" where
  "null_mip sub =
     \<lparr>bm_phi = 0, bm_cut = cs_null_cut sub, bm_unpartitioned_constellation = Some [],
      bm_partitioned_constellation = Some [], bm_subsystem = sub\<rparr>"

definition single_node_mip :: "'k environment \<Rightarrow> candidate_system \<Rightarrow> big_mip" where
  "single_node_mip env sub =
     (if opt_single_nodes_with_selfloops_have_phi env
      then \<lparr>bm_phi = 1 / 2, bm_cut = Cut (cs_nodes sub) (cs_nodes sub),
            bm_unpartitioned_constellation = None, bm_partitioned_constellation = None,
            bm_subsystem = sub\<rparr>
      else null_mip sub)"

definition evaluate_cut ::
  "'k environment \<Rightarrow> candidate_system \<Rightarrow> nat list \<times> nat list \<Rightarrow> concept list \<Rightarrow> 'k caches
     \<Rightarrow> error + big_mip \<times> 'k caches" where
  "evaluate_cut env sub partn unpartitioned_constellation st =
     (let forward_cut = Cut (fst partn) (snd partn);
          (forward_constellation, st1) =
             constellation (opt_epsilon env) (env_raw_key env) (env_marblset env) sub
               (Some forward_cut) st
      in ebind (constellation_distance (env_emd env) (env_concept_distance env)
                  unpartitioned_constellation forward_constellation sub forward_cut)
           (\<lambda>forward_phi.
        (let forward_mip =
               \<lparr>bm_phi = forward_phi,
                bm_cut = forward_cut,
                bm_unpartitioned_constellation = Some unpartitioned_constellation,
                bm_partitioned_constellation = Some forward_constellation,
                bm_subsystem = sub\<rparr>;
             backward_cut = Cut (snd partn) (fst partn);
             (backward_constellation, st2) =
                constellation (opt_epsilon env) (env_raw_key env) (env_marblset env) sub
                  (Some backward_cut) st1
         in ebind (constellation_distance (env_emd env) (env_concept_distance env)
                     unpartitioned_constellation backward_constellation sub backward_cut)
              (\<lambda>backward_phi.
           (let backward_mip =
                  \<lparr>bm_phi = backward_phi,
                   bm_cut = backward_cut,
                   bm_unpartitioned_constellation = Some unpartitioned_constellation,
                   bm_partitioned_constellation = Some backward_constellation,
                   bm_subsystem = sub\<rparr>
            in ebind (py_min (env_less env) [forward_mip, backward_mip]) (\<lambda>mip.
                 Inr (if bm_phi mip > opt_epsilon env then mip else null_mip sub, st2)))))))"

text \<open>
  A Python value that can be iterated over is a list, or a generator, given by what
  running it to its end gives: the items it yields or the error its body raises. A list
  can be sliced; subscripting a generator raises \<^verbatim>\<open>TypeError\<close>.
\<close>

datatype 'a iterable = PyList "'a list" | Generator "error + 'a list"

fun slice_from :: "nat \<Rightarrow> 'a iterable \<Rightarrow> error + 'a list" where
  "slice_from k (PyList xs) = Inr (drop k xs)"
| "slice_from k (Generator g) = Inl TypeError"

text \<open>
  \<^verbatim>\<open>bipartition\<close> of \<^verbatim>\<open>cyphi/utils.py\<close> is a generator function. It yields, for every
  \<open>i\<close> below \<open>2 ^ (size - 1)\<close>, the elements at the one bits of \<open>i\<close>, lowest bit first,
  and the elements at its zero bits. For the empty list \<^verbatim>\<open>2 ** (size - 1)\<close> is the float
  \<open>0.5\<close>, which \<^verbatim>\<open>range\<close> refuses with \<^verbatim>\<open>TypeError\<close>.
\<close>

definition bitstring :: "nat \<Rightarrow> nat \<Rightarrow> bool list" where
  "bitstring i n = map (\<lambda>k. odd (i div 2 ^ k)) [0..<n]"

definition bitstring_index :: "'a list \<Rightarrow> bool list \<Rightarrow> 'a list" where
  "bitstring_index a bs = map fst (filter snd (zip a bs))"

definition bipartition :: "'a list \<Rightarrow> ('a list \<times> 'a list) iterable" where
  "bipartition a =
     Generator
       (if a = [] then Inl TypeError
        else Inr (map (\<lambda>i. (bitstring_index a (bitstring i (length a)),
                           bitstring_index a (map Not (bitstring i (length a)))))
                    [0..<2 ^ (length a - 1)]))"

text \<open>The loop over the partitions, the caches passed from one evaluation to the next.\<close>

fun evaluate_cuts ::
  "'k environment \<Rightarrow> candidate_system \<Rightarrow> (nat list \<times> nat list) list \<Rightarrow> concept list
     \<Rightarrow> 'k caches \<Rightarrow> error + big_mip list \<times> 'k caches" where
  "evaluate_cuts env sub [] unpartitioned_constellation st = Inr ([], st)"
| "evaluate_cuts env sub (partn # rest) unpartitioned_constellation st =
     ebind (evaluate_cut env sub partn unpartitioned_constellation st) (\<lambda>(mip, st1).
     ebind (evaluate_cuts env sub rest unpartitioned_constellation st1) (\<lambda>(mips, st2).
       Inr (mip # mips, st2)))"

text \<open>
  The search over the cuts, the last part of \<^verbatim>\<open>_big_mip\<close>. Its first statement is
  \<^verbatim>\<open>bipartitions = utils.bipartition(subsystem.nodes)[1:]\<close>.
\<close>

definition cut_search ::
  "'k environment \<Rightarrow> candidate_system \<Rightarrow> 'k caches \<Rightarrow> error + big_mip \<times> 'k caches" where
  "cut_search env sub st =
     ebind (slice_from 1 (bipartition (cs_nodes sub))) (\<lambda>bipartitions.
       (let (unpartitioned_constellation, st1) =
              constellation (opt_epsilon env) (env_raw_key env) (env_marblset env) sub
                (Some (cs_null_cut sub)) st
        in ebind (evaluate_cuts env sub bipartitions unpartitioned_constellation st1)
             (\<lambda>(mip_candidates, st2).
                ebind (py_min (env_less env) mip_candidates) (\<lambda>mip. Inr (mip, st2)))))"

text \<open>
  \<^verbatim>\<open>scipy.sparse.csgraph.connected_components(csgraph)\<close> with its default arguments
  \<^verbatim>\<open>directed=True, connection='weak'\<close>: the number of weakly connected components, those
  of the graph with every edge taken in both directions. An entry other than 0 is an edge.
  \<open>closure\<close> collects what is reached from a set of nodes in as many rounds as there are
  nodes.
\<close>

definition submatrix :: "nat list list \<Rightarrow> nat list \<Rightarrow> nat list list" where
  "submatrix cm idx = map (\<lambda>i. map (\<lambda>j. cm ! i ! j) idx) idx"

definition edge :: "nat list list \<Rightarrow> nat \<Rightarrow> nat \<Rightarrow> bool" where
  "edge cm i j = (cm ! i ! j \<noteq> 0)"

definition closure :: "(nat \<Rightarrow> nat \<Rightarrow> bool) \<Rightarrow> nat \<Rightarrow> nat \<Rightarrow> nat list" where
  "closure e n i =
     ((\<lambda>reached. filter (\<lambda>j. j \<in> set reached \<or> list_ex (\<lambda>k. e k j) reached) [0..<n]) ^^ n) [i]"

definition connected_components :: "nat list list \<Rightarrow> nat" where
  "connected_components cm =
     (let n = length cm;
          e = (\<lambda>i j. edge cm i j \<or> edge cm j i)
      in length (filter (\<lambda>i. list_all (\<lambda>j. i \<le> j) (closure e n i)) [0..<n]))"

text \<open>Strongly connected: every node is reached from every node along the edges.\<close>

definition strongly_connected :: "nat list list \<Rightarrow> bool" where
  "strongly_connected cm =
     (let n = length cm
      in list_all (\<lambda>i. list_all (\<lambda>j. j \<in> set (closure (edge cm) n i)) [0..<n]) [0..<n])"

text \<open>
  \<^verbatim>\<open>_big_mip\<close>. The decorator \<^verbatim>\<open>memory.cache\<close> keeps the result under the hash of the
  subsystem and changes none.
\<close>

definition big_mip ::
  "'k environment \<Rightarrow> candidate_system \<Rightarrow> 'k caches \<Rightarrow> error + big_mip \<times> 'k caches" where
  "big_mip env sub st =
     (if length (cs_nodes sub) = 1 then Inr (single_node_mip env sub, st)
      else if cs_nodes sub = [] then Inr (null_mip sub, st)
      else if connected_components (submatrix (cs_connectivity_matrix sub) (cs_nodes sub)) > 1
        then Inr (null_mip sub, st)
      else cut_search env sub st)"

text \<open>
  Two nodes with the single connection from node 0 to node 1: weakly but not strongly
  connected.
\<close>

definition chain_system :: candidate_system where
  "chain_system = example_system\<lparr>cs_connectivity_matrix := [[0, 1], [0, 0]]\<rparr>"

lemma bipartition_example:
  "bipartition [1, 2, 3 :: nat]
     = Generator (Inr [([], [1, 2, 3]), ([1], [2, 3]), ([2], [1, 3]), ([1, 2], [3])])"
  "bipartition ([] :: nat list) = Generator (Inl TypeError)"
  by code_simp+

lemma connectivity_examples:
  "strongly_connected [[0, 1], [1, 0]]"
  "connected_components [[0, 1], [1, 0]] = 1"
  "\<not> strongly_connected [[0, 0], [0, 0]]"
  "connected_components [[0, 0], [0, 0]] = 2"
  "\<not> strongly_connected [[0, 1, 0], [0, 0, 1], [0, 0, 0]]"
  "connected_components [[0, 1, 0], [0, 0, 1], [0, 0, 0]] = 1"
  "strongly_connected [[0, 1, 0], [0, 0, 1], [1, 0, 0]]"
  by code_simp+

lemma big_mip_not_weakly_connected:
  assumes "length (cs_nodes sub) \<ge> 2"
    and "connected_components (submatrix (cs_connectivity_matrix sub) (cs_nodes sub)) > 1"
  shows "big_mip env sub st = Inr (null_mip sub, st)"
    and "bm_phi (null_mip sub) = 0"
    and "bm_partitioned_constellation (null_mip sub) = Some []"
  using assms by (auto simp: big_mip_def null_mip_def)

lemma cut_search_raises: "cut_search env sub st = Inl TypeError"
  by (simp add: cut_search_def bipartition_def)

text \<open>
  Claim C1 at the chain of two nodes. The subsystem has two nodes and its connectivity
  matrix is not strongly connected, but the graph is weakly connected, so
  \<^verbatim>\<open>connected_components\<close> counts one component: \<^verbatim>\<open>_big_mip\<close> does not return the null
  \<^verbatim>\<open>BigMip\<close> there. It goes on to the search over the cuts, which raises \<^verbatim>\<open>TypeError\<close>.
\<close>

theorem big_mip_weakly_connected_chain:
  "length (cs_nodes chain_system) = 2
   \<and> \<not> strongly_connected
         (submatrix (cs_connectivity_matrix chain_system) (cs_nodes chain_system))
   \<and> connected_components
         (submatrix (cs_connectivity_matrix chain_system) (cs_nodes chain_system)) = 1
   \<and> big_mip env chain_system st = cut_search env chain_system st
   \<and> big_mip env chain_system st = Inl TypeError"
proof -
  have n: "length (cs_nodes chain_system) = 2"
    by (simp add: chain_system_def example_system_def)
  have s: "\<not> strongly_connected
         (submatrix (cs_connectivity_matrix chain_system) (cs_nodes chain_system))"
    by code_simp
  have w: "connected_components
         (submatrix (cs_connectivity_matrix chain_system) (cs_nodes chain_system)) = 1"
    by code_simp
  have b: "big_mip env chain_system st = cut_search env chain_system st"
    unfolding big_mip_def w using n by auto
  have "cut_search env chain_system st = Inl TypeError"
    by (simp add: cut_search_def bipartition_def)
  with n s w b show ?thesis by simp
qed

end
